theory Spec2Isabelle
  imports Main "HOL-Library.Monad_Syntax" "HOL-Library.Multiset"
begin

section \<open>Position model (board.h)\<close>

text \<open>
  The C++ engine keeps a position in the struct \<open>board_state\<close>: an 8x8 array of
  \<open>char\<close> cells (0 empty, 1..6 white pawn..king, -1..-6 black), two arrays of eight
  en-passant flags and two arrays of two castling flags.  Rows are indexed from the
  top: row 0 is black's back rank, row 7 white's.  Arrays are lists here, array indices
  are \<open>int\<close> as in the source.

  Where the source guards an index by a bounds test, the read is the total \<open>at\<close>.
  Where it does not (a pawn looks at the row in front of it without a test, the
  notation routine is handed the coordinates -1), the model tests the index and the
  enclosing function returns \<open>None\<close>: the C++ program reads outside the array there.
\<close>

datatype side = WHITE | BLACK

abbreviation (input) EMPTY :: int where "EMPTY \<equiv> 0"
abbreviation (input) WHITE_PAWN :: int where "WHITE_PAWN \<equiv> 1"
abbreviation (input) WHITE_KNIGHT :: int where "WHITE_KNIGHT \<equiv> 2"
abbreviation (input) WHITE_BISHOP :: int where "WHITE_BISHOP \<equiv> 3"
abbreviation (input) WHITE_ROOK :: int where "WHITE_ROOK \<equiv> 4"
abbreviation (input) WHITE_QUEEN :: int where "WHITE_QUEEN \<equiv> 5"
abbreviation (input) WHITE_KING :: int where "WHITE_KING \<equiv> 6"
abbreviation (input) BLACK_PAWN :: int where "BLACK_PAWN \<equiv> - 1"
abbreviation (input) BLACK_KNIGHT :: int where "BLACK_KNIGHT \<equiv> - 2"
abbreviation (input) BLACK_BISHOP :: int where "BLACK_BISHOP \<equiv> - 3"
abbreviation (input) BLACK_ROOK :: int where "BLACK_ROOK \<equiv> - 4"
abbreviation (input) BLACK_QUEEN :: int where "BLACK_QUEEN \<equiv> - 5"
abbreviation (input) BLACK_KING :: int where "BLACK_KING \<equiv> - 6"

definition knight_move :: "(int \<times> int) list" where
  "knight_move = [(-1, -2), (-1, 2), (1, -2), (1, 2), (-2, -1), (-2, 1), (2, -1), (2, 1)]"

definition bishop_direction :: "(int \<times> int) list" where
  "bishop_direction = [(1, 1), (-1, 1), (1, -1), (-1, -1)]"

definition rook_direction :: "(int \<times> int) list" where
  "rook_direction = [(1, 0), (-1, 0), (0, 1), (0, -1)]"

definition every_direction :: "(int \<times> int) list" where
  "every_direction = [(1, 1), (-1, 1), (1, -1), (-1, -1), (0, 1), (1, 0), (-1, 0), (0, -1)]"

record board_state =
  board :: "int list list"
  pawn_two_squares_black :: "bool list"
  pawn_two_squares_white :: "bool list"
  can_castle_white :: "bool list"
  can_castle_black :: "bool list"

definition on_board :: "int \<Rightarrow> int \<Rightarrow> bool" where
  "on_board i j = (0 \<le> i \<and> i < 8 \<and> 0 \<le> j \<and> j < 8)"

definition at :: "int list list \<Rightarrow> int \<Rightarrow> int \<Rightarrow> int" where
  "at b i j = b ! nat i ! nat j"

definition put :: "int list list \<Rightarrow> int \<Rightarrow> int \<Rightarrow> int \<Rightarrow> int list list" where
  "put b i j v = b[nat i := (b ! nat i)[nat j := v]]"

definition flag :: "bool list \<Rightarrow> int \<Rightarrow> bool" where
  "flag fs n = fs ! nat n"

definition set_flag :: "bool list \<Rightarrow> int \<Rightarrow> bool \<Rightarrow> bool list" where
  "set_flag fs n v = fs[nat n := v]"

definition idx8 :: "int list" where
  "idx8 = [0, 1, 2, 3, 4, 5, 6, 7]"

definition squares :: "(int \<times> int) list" where
  "squares = concat (map (\<lambda>m. map (\<lambda>n. (m, n)) idx8) idx8)"

definition well_formed :: "board_state \<Rightarrow> bool" where
  "well_formed p =
     (length (board p) = 8 \<and> list_all (\<lambda>r. length r = 8 \<and> list_all (\<lambda>c. - 6 \<le> c \<and> c \<le> 6) r) (board p)
      \<and> length (pawn_two_squares_black p) = 8 \<and> length (pawn_two_squares_white p) = 8
      \<and> length (can_castle_white p) = 2 \<and> length (can_castle_black p) = 2)"

definition opponent_of :: "side \<Rightarrow> side" where
  "opponent_of s = (if s = WHITE then BLACK else WHITE)"

definition pawn_of :: "side \<Rightarrow> int" where
  "pawn_of s = (if s = BLACK then BLACK_PAWN else WHITE_PAWN)"

definition knight_of :: "side \<Rightarrow> int" where
  "knight_of s = (if s = BLACK then BLACK_KNIGHT else WHITE_KNIGHT)"

definition bishop_of :: "side \<Rightarrow> int" where
  "bishop_of s = (if s = BLACK then BLACK_BISHOP else WHITE_BISHOP)"

definition rook_of :: "side \<Rightarrow> int" where
  "rook_of s = (if s = BLACK then BLACK_ROOK else WHITE_ROOK)"

definition queen_of :: "side \<Rightarrow> int" where
  "queen_of s = (if s = BLACK then BLACK_QUEEN else WHITE_QUEEN)"

definition king_of :: "side \<Rightarrow> int" where
  "king_of s = (if s = BLACK then BLACK_KING else WHITE_KING)"

text \<open>\<open>Board::square_occupied_by_opponent\<close>.\<close>

definition square_occupied_by_opponent :: "int list list \<Rightarrow> int \<Rightarrow> int \<Rightarrow> side \<Rightarrow> bool" where
  "square_occupied_by_opponent b i j s = (if s = WHITE then at b i j < 0 else at b i j > 0)"

text \<open>\<open>Board::move_piece\<close>: copy the piece to the destination, then clear the source.\<close>

definition move_piece :: "int list list \<Rightarrow> int \<Rightarrow> int \<Rightarrow> int \<Rightarrow> int \<Rightarrow> int list list" where
  "move_piece b start_i start_j destination_i destination_j =
     put (put b destination_i destination_j (at b start_i start_j)) start_i start_j 0"

text \<open>\<open>Board::reset_en_passant\<close>: every flag of side \<open>s\<close> becomes false.\<close>

definition reset_en_passant :: "board_state \<Rightarrow> side \<Rightarrow> board_state" where
  "reset_en_passant pos s =
     (if s = WHITE then pos\<lparr>pawn_two_squares_white := map (\<lambda>_. False) (pawn_two_squares_white pos)\<rparr>
      else pos\<lparr>pawn_two_squares_black := map (\<lambda>_. False) (pawn_two_squares_black pos)\<rparr>)"

section \<open>Attack predicates (board.cpp)\<close>

text \<open>
  A sliding piece walks \<open>path += direction\<close> while the path square is on the board.
  From a square of the board and with a non-zero direction at most seven squares are
  visited, so the walk is the list of the on-board squares among the first seven steps.
\<close>

definition ray :: "int \<Rightarrow> int \<Rightarrow> int \<times> int \<Rightarrow> (int \<times> int) list" where
  "ray i j d = takeWhile (\<lambda>(pi, pj). on_board pi pj)
                 (map (\<lambda>k. (i + k * fst d, j + k * snd d)) [1, 2, 3, 4, 5, 6, 7])"

text \<open>The loop body of \<open>under_bishop_control\<close>, \<open>under_rook_control\<close>, \<open>under_queen_control\<close>:
  reaching the target returns true, a piece on the path ends this direction.\<close>

fun ray_reaches :: "int list list \<Rightarrow> int \<Rightarrow> int \<Rightarrow> (int \<times> int) list \<Rightarrow> bool" where
  "ray_reaches b target_i target_j [] = False"
| "ray_reaches b target_i target_j (sq # path) =
     (if fst sq = target_i \<and> snd sq = target_j then True
      else if at b (fst sq) (snd sq) \<noteq> 0 then False
      else ray_reaches b target_i target_j path)"

definition under_pawn_control :: "int list list \<Rightarrow> int \<Rightarrow> int \<Rightarrow> int \<Rightarrow> int \<Rightarrow> bool" where
  "under_pawn_control b start_i start_j target_i target_j =
     (let dir = (if at b start_i start_j < 0 then - 1 else 1)
      in (target_i + dir = start_i \<and> start_j = target_j + 1)
         \<or> (target_i + dir = start_i \<and> start_j = target_j - 1))"

definition under_knight_control :: "int \<Rightarrow> int \<Rightarrow> int \<Rightarrow> int \<Rightarrow> bool" where
  "under_knight_control start_i start_j target_i target_j =
     list_ex (\<lambda>d. target_i = start_i + fst d \<and> target_j = start_j + snd d) knight_move"

definition under_king_control :: "int \<Rightarrow> int \<Rightarrow> int \<Rightarrow> int \<Rightarrow> bool" where
  "under_king_control start_i start_j target_i target_j =
     list_ex (\<lambda>d. target_i = start_i + fst d \<and> target_j = start_j + snd d) every_direction"

definition under_bishop_control :: "int list list \<Rightarrow> int \<Rightarrow> int \<Rightarrow> int \<Rightarrow> int \<Rightarrow> bool" where
  "under_bishop_control b start_i start_j target_i target_j =
     list_ex (\<lambda>d. ray_reaches b target_i target_j (ray start_i start_j d)) bishop_direction"

definition under_rook_control :: "int list list \<Rightarrow> int \<Rightarrow> int \<Rightarrow> int \<Rightarrow> int \<Rightarrow> bool" where
  "under_rook_control b start_i start_j target_i target_j =
     list_ex (\<lambda>d. ray_reaches b target_i target_j (ray start_i start_j d)) rook_direction"

definition under_queen_control :: "int list list \<Rightarrow> int \<Rightarrow> int \<Rightarrow> int \<Rightarrow> int \<Rightarrow> bool" where
  "under_queen_control b start_i start_j target_i target_j =
     list_ex (\<lambda>d. ray_reaches b target_i target_j (ray start_i start_j d)) every_direction"

text \<open>\<open>Board::under_control\<close>: some piece of side \<open>s\<close> controls \<open>(i, j)\<close>.\<close>

definition under_control :: "int list list \<Rightarrow> int \<Rightarrow> int \<Rightarrow> side \<Rightarrow> bool" where
  "under_control b i j s =
     list_ex (\<lambda>sq. let m = fst sq; n = snd sq; c = at b m n in
                (c = pawn_of s \<and> under_pawn_control b m n i j)
              \<or> (c = knight_of s \<and> under_knight_control m n i j)
              \<or> (c = bishop_of s \<and> under_bishop_control b m n i j)
              \<or> (c = rook_of s \<and> under_rook_control b m n i j)
              \<or> (c = queen_of s \<and> under_queen_control b m n i j)
              \<or> (c = king_of s \<and> under_king_control m n i j)) squares"

text \<open>\<open>Board::king_is_in_check\<close>: a king of side \<open>s\<close> stands on a square the opponent controls.\<close>

definition king_is_in_check :: "int list list \<Rightarrow> side \<Rightarrow> bool" where
  "king_is_in_check b s =
     list_ex (\<lambda>sq. at b (fst sq) (snd sq) = king_of s
                    \<and> under_control b (fst sq) (snd sq) (opponent_of s)) squares"

section \<open>Checkmate and stalemate (board.cpp)\<close>

text \<open>
  Both routines scan the squares row by row and return at the first move found.  The
  scan is \<open>first_hit\<close>: \<open>Some True\<close> when a square yields a move, \<open>None\<close> when the
  scan reads outside the board before that.
\<close>

fun first_hit :: "('a \<Rightarrow> bool option) \<Rightarrow> 'a list \<Rightarrow> bool option" where
  "first_hit f [] = Some False"
| "first_hit f (x # xs) =
     (case f x of None \<Rightarrow> None | Some True \<Rightarrow> Some True | Some False \<Rightarrow> first_hit f xs)"

text \<open>A step move of \<open>is_checkmate\<close> (king, knight): the piece is lifted from \<open>(m, n)\<close>
  and set on the target when that is empty or holds an opponent; the move escapes
  when the own king is then not in check.\<close>

definition step_escape :: "int list list \<Rightarrow> side \<Rightarrow> int \<Rightarrow> int \<Rightarrow> int \<Rightarrow> int \<times> int \<Rightarrow> bool" where
  "step_escape b s m n piece d =
     (let k_i = m + fst d; k_j = n + snd d in
      on_board k_i k_j
      \<and> (square_occupied_by_opponent b k_i k_j s \<or> at b k_i k_j = 0)
      \<and> \<not> king_is_in_check (put (put b m n 0) k_i k_j piece) s)"

text \<open>The while loop of a rook, bishop or queen in \<open>is_checkmate\<close>.\<close>

fun slide_escape :: "int list list \<Rightarrow> side \<Rightarrow> int \<Rightarrow> int \<Rightarrow> int \<Rightarrow> (int \<times> int) list \<Rightarrow> bool" where
  "slide_escape b s m n piece [] = False"
| "slide_escape b s m n piece (sq # path) =
     (if (square_occupied_by_opponent b (fst sq) (snd sq) s \<or> at b (fst sq) (snd sq) = 0)
         \<and> \<not> king_is_in_check (put (put b m n 0) (fst sq) (snd sq) piece) s then True
      else if at b (fst sq) (snd sq) \<noteq> 0 then False
      else slide_escape b s m n piece path)"

text \<open>The pawn block of \<open>is_checkmate\<close>.  Its first statement reads
  \<open>p.board[m + dir][n]\<close> with no bounds test.\<close>

definition pawn_escape :: "board_state \<Rightarrow> side \<Rightarrow> int \<Rightarrow> int \<Rightarrow> bool option" where
  "pawn_escape p s m n =
     (let b = board p;
          dir = (if s = BLACK then 1 else - 1);
          startingRank = (if s = BLACK then 1 else 6);
          enPassantRank = (if s = BLACK then 4 else 3);
          en_passant = (if s = BLACK then pawn_two_squares_white p else pawn_two_squares_black p);
          pawn = pawn_of s
      in if \<not> on_board (m + dir) n then None
         else Some (
            (at b (m + dir) n = 0
               \<and> \<not> king_is_in_check (put (put b m n 0) (m + dir) n pawn) s)
          \<or> (startingRank = m \<and> at b (m + dir) n = 0 \<and> at b (m + 2 * dir) n = 0
               \<and> \<not> king_is_in_check (put (put b m n 0) (m + 2 * dir) n pawn) s)
          \<or> (n \<noteq> 0 \<and> square_occupied_by_opponent b (m + dir) (n - 1) s
               \<and> \<not> king_is_in_check (put (put b m n 0) (m + dir) (n - 1) pawn) s)
          \<or> (n \<noteq> 7 \<and> square_occupied_by_opponent b (m + dir) (n + 1) s
               \<and> \<not> king_is_in_check (put (put b m n 0) (m + dir) (n + 1) pawn) s)
          \<or> (n \<noteq> 0 \<and> m = enPassantRank \<and> flag en_passant (n - 1)
               \<and> \<not> king_is_in_check (put (put (put b m n 0) m (n - 1) 0) (m + dir) (n - 1) pawn) s)
          \<or> (n \<noteq> 7 \<and> m = enPassantRank \<and> flag en_passant (n + 1)
               \<and> \<not> king_is_in_check (put (put (put b m n 0) m (n + 1) 0) (m + dir) (n + 1) pawn) s)))"

definition checkmate_square :: "board_state \<Rightarrow> side \<Rightarrow> int \<times> int \<Rightarrow> bool option" where
  "checkmate_square p s sq =
     (let b = board p; m = fst sq; n = snd sq; c = at b m n in
      if c = king_of s then Some (list_ex (step_escape b s m n (king_of s)) every_direction)
      else if c = pawn_of s then pawn_escape p s m n
      else if c = knight_of s then Some (list_ex (step_escape b s m n (knight_of s)) knight_move)
      else if c = rook_of s then
        Some (list_ex (\<lambda>d. slide_escape b s m n (rook_of s) (ray m n d)) rook_direction)
      else if c = bishop_of s then
        Some (list_ex (\<lambda>d. slide_escape b s m n (bishop_of s) (ray m n d)) bishop_direction)
      else if c = queen_of s then
        Some (list_ex (\<lambda>d. slide_escape b s m n (queen_of s) (ray m n d)) every_direction)
      else Some False)"

text \<open>\<open>Board::is_checkmate\<close>: false at the first escaping move, true when the scan ends.
  The routine does not test whether the king is in check.\<close>

definition is_checkmate :: "board_state \<Rightarrow> side \<Rightarrow> bool option" where
  "is_checkmate p s = map_option Not (first_hit (checkmate_square p s) squares)"

text \<open>The while loop of a rook, bishop or queen in \<open>is_stalemate\<close>: the first square of a
  direction decides, since an empty or opponent square returns and any other square
  breaks.\<close>

fun slide_free :: "int list list \<Rightarrow> side \<Rightarrow> (int \<times> int) list \<Rightarrow> bool" where
  "slide_free b s [] = False"
| "slide_free b s (sq # path) =
     (if square_occupied_by_opponent b (fst sq) (snd sq) s \<or> at b (fst sq) (snd sq) = 0 then True
      else if at b (fst sq) (snd sq) \<noteq> 0 then False
      else slide_free b s path)"

definition step_free :: "int list list \<Rightarrow> side \<Rightarrow> int \<Rightarrow> int \<Rightarrow> int \<times> int \<Rightarrow> bool" where
  "step_free b s m n d =
     (let n_i = m + fst d; n_j = n + snd d in
      on_board n_i n_j \<and> (square_occupied_by_opponent b n_i n_j s \<or> at b n_i n_j = 0))"

definition stalemate_square :: "board_state \<Rightarrow> side \<Rightarrow> int \<times> int \<Rightarrow> bool option" where
  "stalemate_square p s sq =
     (let b = board p; m = fst sq; n = snd sq; c = at b m n;
          dir = (if s = BLACK then 1 else - 1);
          enPassantRank = (if s = BLACK then 4 else 3);
          en_passant = (if s = BLACK then pawn_two_squares_white p else pawn_two_squares_black p)
      in
      if c = king_of s then
        Some (list_ex (\<lambda>d. step_free b s m n d
                            \<and> \<not> under_control b (m + fst d) (n + snd d) (opponent_of s)) every_direction)
      else if c = pawn_of s then
        (if \<not> on_board (m + dir) n then None
         else Some (at b (m + dir) n = 0
                    \<or> (n \<noteq> 0 \<and> square_occupied_by_opponent b (m + dir) (n - 1) s)
                    \<or> (n \<noteq> 7 \<and> square_occupied_by_opponent b (m + dir) (n + 1) s)
                    \<or> (n \<noteq> 0 \<and> m = enPassantRank \<and> flag en_passant (n - 1))
                    \<or> (n \<noteq> 7 \<and> m = enPassantRank \<and> flag en_passant (n + 1))))
      else if c = knight_of s then Some (list_ex (step_free b s m n) knight_move)
      else if c = rook_of s then Some (list_ex (\<lambda>d. slide_free b s (ray m n d)) rook_direction)
      else if c = bishop_of s then Some (list_ex (\<lambda>d. slide_free b s (ray m n d)) bishop_direction)
      else if c = queen_of s then Some (list_ex (\<lambda>d. slide_free b s (ray m n d)) every_direction)
      else Some False)"

text \<open>\<open>Board::is_stalemate\<close>: false when in check, false at the first move found, else true.
  For pieces other than the king the routine does not try the move on a copy.\<close>

definition is_stalemate :: "board_state \<Rightarrow> side \<Rightarrow> bool option" where
  "is_stalemate p s =
     (if king_is_in_check (board p) s then Some False
      else map_option Not (first_hit (stalemate_square p s) squares))"

section \<open>Move notation (board.cpp)\<close>

text \<open>
  \<open>Board::generate_move_notation\<close> reads the board at both squares without a bounds
  test (the engine hands it -1 when it found no move), so the model returns \<open>None\<close>
  for squares off the board.  With the target on the board \<open>8 - to_i\<close> is one digit.
  The mate mark is computed only when the opponent is in check (\<open>check && is_checkmate\<close>).
\<close>

definition piece_letter :: "int \<Rightarrow> string" where
  "piece_letter piece =
     (if piece = 2 then ''N'' else if piece = 3 then ''B'' else if piece = 4 then ''R''
      else if piece = 5 then ''Q'' else if piece = 6 then ''K'' else [])"

definition generate_move_notation ::
    "board_state \<Rightarrow> int \<Rightarrow> int \<Rightarrow> int \<Rightarrow> int \<Rightarrow> side \<Rightarrow> string option" where
  "generate_move_notation pos from_i from_j to_i to_j player =
     (if \<not> on_board from_i from_j \<or> \<not> on_board to_i to_j then None
      else
        let piece = \<bar>at (board pos) from_i from_j\<bar>;
            target = at (board pos) to_i to_j;
            is_capture = (target \<noteq> 0)
        in
        if piece = 6 \<and> from_j = 4 \<and> to_j = 6 then Some ''O-O''
        else if piece = 6 \<and> from_j = 4 \<and> to_j = 2 then Some ''O-O-O''
        else
          let notation = piece_letter piece
                @ (if piece = 1 \<and> is_capture then [char_of (97 + from_j)] else [])
                @ (if is_capture then ''x'' else [])
                @ [char_of (97 + to_j), char_of (48 + (8 - to_i))];
              temp = pos\<lparr>board := put (put (board pos) to_i to_j (at (board pos) from_i from_j)) from_i from_j 0\<rparr>;
              opponent = (if player = WHITE then BLACK else WHITE);
              check = king_is_in_check (board temp) opponent
          in
          if check then
            (case is_checkmate temp opponent of
               None \<Rightarrow> None
             | Some mate \<Rightarrow> Some (notation @ (if mate then ''#'' else ''+'')))
          else Some notation)"

section \<open>Validated move entry for white (board.cpp)\<close>

text \<open>
  The \<open>Board\<close> object: the position and the two members \<open>pawn_move\<close> writes.
  The promotion callback of the GUI is the character it returns, \<open>cb\<close>.
\<close>

record Board =
  position :: board_state
  en_passant_index :: int
  promote_pawn :: bool

text \<open>\<open>Board::pawn_move\<close> for a white pawn: single step, double step, en passant by the
  stored flag, diagonal capture (\<open>direction\<close> 1, then -1).\<close>

definition pawn_move :: "Board \<Rightarrow> int \<Rightarrow> int \<Rightarrow> int \<Rightarrow> int \<Rightarrow> bool \<times> Board" where
  "pawn_move B start_i start_j target_i target_j =
     (let b = board (position B);
          promoted = (if target_i = 0 then B\<lparr>promote_pawn := True\<rparr> else B)
      in
      if target_i = start_i - 1 \<and> start_j = target_j \<and> at b target_i target_j = 0
        then (True, promoted)
      else if start_i = 6 \<and> start_i - 2 = target_i \<and> start_j = target_j
              \<and> at b (target_i + 1) target_j = 0 \<and> at b target_i target_j = 0
        then (True, B\<lparr>en_passant_index := target_j\<rparr>)
      else if start_i = 3 \<and> target_i = 2 \<and> (target_j = start_j - 1 \<or> target_j = start_j + 1)
              \<and> flag (pawn_two_squares_black (position B)) target_j
        then (True, B)
      else if start_i - 1 = target_i \<and> target_j + 1 = start_j \<and> at b target_i target_j < 0
        then (True, promoted)
      else if start_i - 1 = target_i \<and> target_j + (- 1) = start_j \<and> at b target_i target_j < 0
        then (True, promoted)
      else (False, B))"

text \<open>The castling branches of \<open>handle_white_move\<close>.  Neither tests that a rook
  stands on the corner.\<close>

definition white_castle_kingside_ok :: "board_state \<Rightarrow> int \<Rightarrow> int \<Rightarrow> int \<Rightarrow> int \<Rightarrow> bool" where
  "white_castle_kingside_ok pos start_i start_j target_i target_j =
     (start_i = 7 \<and> start_j = 4 \<and> target_i = 7 \<and> target_j = 6
      \<and> at (board pos) 7 5 = 0 \<and> at (board pos) 7 6 = 0
      \<and> \<not> under_control (board pos) 7 4 BLACK
      \<and> \<not> under_control (board pos) 7 5 BLACK
      \<and> \<not> under_control (board pos) 7 6 BLACK
      \<and> flag (can_castle_white pos) 1)"

definition white_castle_queenside_ok :: "board_state \<Rightarrow> int \<Rightarrow> int \<Rightarrow> int \<Rightarrow> int \<Rightarrow> bool" where
  "white_castle_queenside_ok pos start_i start_j target_i target_j =
     (start_i = 7 \<and> start_j = 4 \<and> target_i = 7 \<and> target_j = 2
      \<and> at (board pos) 7 1 = 0 \<and> at (board pos) 7 2 = 0 \<and> at (board pos) 7 3 = 0
      \<and> \<not> under_control (board pos) 7 2 BLACK
      \<and> \<not> under_control (board pos) 7 3 BLACK
      \<and> \<not> under_control (board pos) 7 4 BLACK
      \<and> flag (can_castle_white pos) 0)"

definition no_castling :: "bool list \<Rightarrow> bool list" where
  "no_castling fs = set_flag (set_flag fs 0 False) 1 False"

text \<open>The body of a castling branch: the king goes to the target, the rook square of
  the back rank (7 for white, 0 for black) is cleared, a rook is written beside the
  king, both castling flags of the side are cleared.\<close>

definition castle_on :: "board_state \<Rightarrow> side \<Rightarrow> int \<Rightarrow> int \<Rightarrow> int \<Rightarrow> int \<Rightarrow> int \<Rightarrow> int \<Rightarrow> board_state" where
  "castle_on pp s start_i start_j target_i target_j rook_from rook_to =
     (let back = (if s = WHITE then 7 else 0);
          b1 = put (board pp) target_i target_j (at (board pp) start_i start_j);
          b2 = put b1 start_i start_j 0;
          b3 = put b2 back rook_from 0;
          b4 = put b3 back rook_to (rook_of s)
      in if s = WHITE then pp\<lparr>board := b4, can_castle_white := no_castling (can_castle_white pp)\<rparr>
         else pp\<lparr>board := b4, can_castle_black := no_castling (can_castle_black pp)\<rparr>)"

text \<open>The switch of \<open>handle_white_move\<close>: whether the piece may make the move
  (\<open>move_is_legal\<close>), the tentative position \<open>possible_position\<close>, and the object
  after \<open>pawn_move\<close>.\<close>

definition white_switch ::
    "Board \<Rightarrow> int \<Rightarrow> int \<Rightarrow> int \<Rightarrow> int \<Rightarrow> bool \<times> board_state \<times> Board" where
  "white_switch B start_i start_j target_i target_j =
     (let pos = position B; pp = pos; c = at (board pos) start_i start_j;
          moved = pp\<lparr>board := move_piece (board pp) start_i start_j target_i target_j\<rparr>
      in
      if c = WHITE_PAWN then
        (case pawn_move B start_i start_j target_i target_j of
           (True, B') \<Rightarrow>
             (True,
              (if start_i = 3 \<and> target_i = 2 \<and> \<bar>target_j - start_j\<bar> = 1
                  \<and> at (board pos) start_i target_j = BLACK_PAWN
                  \<and> flag (pawn_two_squares_black pos) target_j
               then moved\<lparr>board := put (board moved) start_i target_j 0\<rparr> else moved), B')
         | (False, B') \<Rightarrow> (False, pp, B'))
      else if c = WHITE_KNIGHT then
        (if under_knight_control start_i start_j target_i target_j then (True, moved, B) else (False, pp, B))
      else if c = WHITE_BISHOP then
        (if under_bishop_control (board pos) start_i start_j target_i target_j then (True, moved, B)
         else (False, pp, B))
      else if c = WHITE_ROOK then
        (if under_rook_control (board pos) start_i start_j target_i target_j then
           (let r1 = (if start_i = 7 \<and> start_j = 0
                      then moved\<lparr>can_castle_white := set_flag (can_castle_white moved) 0 False\<rparr> else moved);
                r2 = (if start_i = 7 \<and> start_j = 7
                      then r1\<lparr>can_castle_white := set_flag (can_castle_white r1) 1 False\<rparr> else r1)
            in (True, r2, B))
         else (False, pp, B))
      else if c = WHITE_QUEEN then
        (if under_queen_control (board pos) start_i start_j target_i target_j then (True, moved, B)
         else (False, pp, B))
      else if c = WHITE_KING then
        (let k1 = (if under_king_control start_i start_j target_i target_j
                   then (True, moved\<lparr>can_castle_white := no_castling (can_castle_white moved)\<rparr>)
                   else (False, pp));
             k2 = (if white_castle_kingside_ok pos start_i start_j target_i target_j
                   then (True, castle_on (snd k1) WHITE start_i start_j target_i target_j 7 5) else k1);
             k3 = (if white_castle_queenside_ok pos start_i start_j target_i target_j
                   then (True, castle_on (snd k2) WHITE start_i start_j target_i target_j 0 3) else k2)
         in (fst k3, snd k3, B))
      else (False, pp, B))"

definition promotion_piece :: "side \<Rightarrow> char \<Rightarrow> int" where
  "promotion_piece s user_input =
     (if user_input = CHR ''k'' then knight_of s
      else if user_input = CHR ''b'' then bishop_of s
      else if user_input = CHR ''r'' then rook_of s
      else queen_of s)"

text \<open>The commit of \<open>handle_white_move\<close>: board and castling flags from the tentative
  position, every white en-passant flag cleared, the flag of a double step set, the
  promotion piece set.\<close>

definition white_commit :: "char \<Rightarrow> board_state \<Rightarrow> Board \<Rightarrow> int \<Rightarrow> int \<Rightarrow> Board" where
  "white_commit cb pp B target_i target_j =
     (let pos = position B;
          cleared = map (\<lambda>_. False) (pawn_two_squares_white pos);
          p1 = pos\<lparr>board := board pp,
                    can_castle_white := can_castle_white pp,
                    can_castle_black := can_castle_black pp,
                    pawn_two_squares_white :=
                      (if en_passant_index B \<noteq> - 1 then set_flag cleared (en_passant_index B) True
                       else cleared),
                    pawn_two_squares_black := pawn_two_squares_black pp\<rparr>;
          p2 = (if promote_pawn B
                then p1\<lparr>board := put (board p1) target_i target_j (promotion_piece WHITE cb)\<rparr> else p1)
      in B\<lparr>position := p2\<rparr>)"

text \<open>\<open>Board::handle_white_move\<close>: the notation and the object afterwards; the empty
  string is the rejection.  On entry the routine resets the two members (\<open>entered\<close>).\<close>

definition entered :: "Board \<Rightarrow> Board" where
  "entered B = B\<lparr>promote_pawn := False, en_passant_index := - 1\<rparr>"

definition handle_white_move ::
    "char \<Rightarrow> Board \<Rightarrow> int \<Rightarrow> int \<Rightarrow> int \<Rightarrow> int \<Rightarrow> (string \<times> Board) option" where
  "handle_white_move cb B0 start_i start_j target_i target_j =
     (let B = entered B0 in
      if at (board (position B)) target_i target_j > 0 then Some ([], B)
      else
        (case white_switch B start_i start_j target_i target_j of
           (move_is_legal, pp, B') \<Rightarrow>
             if move_is_legal \<and> \<not> king_is_in_check (board pp) WHITE then
               (case generate_move_notation (position B') start_i start_j target_i target_j WHITE of
                  None \<Rightarrow> None
                | Some move_string \<Rightarrow> Some (move_string, white_commit cb pp B' target_i target_j))
             else Some ([], B')))"

section \<open>Validated move entry for black (board.cpp, human.cpp)\<close>

definition black_castle_kingside_ok :: "board_state \<Rightarrow> int \<Rightarrow> int \<Rightarrow> int \<Rightarrow> int \<Rightarrow> bool" where
  "black_castle_kingside_ok pos start_i start_j target_i target_j =
     (start_i = 0 \<and> start_j = 4 \<and> target_i = 0 \<and> target_j = 6
      \<and> at (board pos) 0 5 = 0 \<and> at (board pos) 0 6 = 0
      \<and> \<not> under_control (board pos) 0 4 WHITE
      \<and> \<not> under_control (board pos) 0 5 WHITE
      \<and> \<not> under_control (board pos) 0 6 WHITE
      \<and> flag (can_castle_black pos) 1)"

definition black_castle_queenside_ok :: "board_state \<Rightarrow> int \<Rightarrow> int \<Rightarrow> int \<Rightarrow> int \<Rightarrow> bool" where
  "black_castle_queenside_ok pos start_i start_j target_i target_j =
     (start_i = 0 \<and> start_j = 4 \<and> target_i = 0 \<and> target_j = 2
      \<and> at (board pos) 0 1 = 0 \<and> at (board pos) 0 2 = 0 \<and> at (board pos) 0 3 = 0
      \<and> \<not> under_control (board pos) 0 2 WHITE
      \<and> \<not> under_control (board pos) 0 3 WHITE
      \<and> \<not> under_control (board pos) 0 4 WHITE
      \<and> flag (can_castle_black pos) 0)"

text \<open>The switch of \<open>is_black_move_legal\<close>: \<open>move_is_legal\<close>, the tentative position and
  the local \<open>en_passant_index\<close>.  The pawn cases are an else-if chain; the queenside
  castling is the else of the kingside castling.\<close>

definition black_switch ::
    "board_state \<Rightarrow> int \<Rightarrow> int \<Rightarrow> int \<Rightarrow> int \<Rightarrow> bool \<times> board_state \<times> int" where
  "black_switch pos start_i start_j target_i target_j =
     (let pp = pos; c = at (board pos) start_i start_j;
          moved = pp\<lparr>board := move_piece (board pp) start_i start_j target_i target_j\<rparr>
      in
      if c = BLACK_PAWN then
        (if target_i = start_i + 1 \<and> target_j = start_j then
           (if at (board pos) target_i target_j = 0 then (True, moved, - 1) else (False, pp, - 1))
         else if start_i = 1 \<and> target_i = start_i + 2 \<and> start_j = target_j then
           (if at (board pos) (target_i - 1) target_j = 0 \<and> at (board pos) target_i target_j = 0 then
              (True,
               moved\<lparr>pawn_two_squares_black :=
                        set_flag (map (\<lambda>_. False) (pawn_two_squares_black pp)) target_j True\<rparr>,
               target_j)
            else (False, pp, - 1))
         else if start_i = 4 \<and> target_i = 5 \<and> (target_j = start_j - 1 \<or> target_j = start_j + 1)
                 \<and> flag (pawn_two_squares_white pos) target_j then
           (True, moved\<lparr>board := put (board moved) 4 target_j 0\<rparr>, - 1)
         else if target_i = start_i + 1 \<and> (target_j = start_j - 1 \<or> target_j = start_j + 1)
                 \<and> at (board pos) target_i target_j > 0 then
           (True, moved, - 1)
         else (False, pp, - 1))
      else if c = BLACK_KNIGHT then
        (if under_knight_control start_i start_j target_i target_j then (True, moved, - 1)
         else (False, pp, - 1))
      else if c = BLACK_BISHOP then
        (if under_bishop_control (board pos) start_i start_j target_i target_j then (True, moved, - 1)
         else (False, pp, - 1))
      else if c = BLACK_ROOK then
        (if under_rook_control (board pos) start_i start_j target_i target_j then
           (let r1 = (if start_i = 0 \<and> start_j = 0
                      then moved\<lparr>can_castle_black := set_flag (can_castle_black moved) 0 False\<rparr> else moved);
                r2 = (if start_i = 0 \<and> start_j = 7
                      then r1\<lparr>can_castle_black := set_flag (can_castle_black r1) 1 False\<rparr> else r1)
            in (True, r2, - 1))
         else (False, pp, - 1))
      else if c = BLACK_QUEEN then
        (if under_queen_control (board pos) start_i start_j target_i target_j then (True, moved, - 1)
         else (False, pp, - 1))
      else if c = BLACK_KING then
        (let k1 = (if under_king_control start_i start_j target_i target_j
                   then (True, moved\<lparr>can_castle_black := no_castling (can_castle_black moved)\<rparr>)
                   else (False, pp));
             k2 = (if black_castle_kingside_ok pos start_i start_j target_i target_j
                   then (True, castle_on (snd k1) BLACK start_i start_j target_i target_j 7 5)
                   else if black_castle_queenside_ok pos start_i start_j target_i target_j
                   then (True, castle_on (snd k1) BLACK start_i start_j target_i target_j 0 3)
                   else k1)
         in (fst k2, snd k2, - 1))
      else (False, pp, - 1))"

text \<open>\<open>Board::is_black_move_legal\<close>: the verdict, the caller's position and the caller's
  \<open>possible_position\<close>, both passed by reference.  On acceptance the position takes the
  tentative board and flags, and after a double step the \<open>white\<close> flag of the file is
  set as well (the statement is the one of \<open>handle_white_move\<close>).\<close>

definition is_black_move_legal ::
    "board_state \<Rightarrow> int \<Rightarrow> int \<Rightarrow> int \<Rightarrow> int \<Rightarrow> bool \<times> board_state \<times> board_state" where
  "is_black_move_legal pos start_i start_j target_i target_j =
     (case black_switch pos start_i start_j target_i target_j of
        (move_is_legal, pp, epi) \<Rightarrow>
          if move_is_legal \<and> \<not> king_is_in_check (board pp) BLACK then
            (True,
             pp\<lparr>pawn_two_squares_white :=
                   (if epi \<noteq> - 1 then set_flag (pawn_two_squares_white pp) epi True
                    else pawn_two_squares_white pp)\<rparr>,
             pp)
          else (False, pos, pp))"

text \<open>\<open>Human::handle_black_move\<close>.  The notation is generated before any test.  An
  accepted move is committed by \<open>is_black_move_legal\<close> and then overwritten with
  \<open>possible_position\<close>, after the promotion.  The callback is optional (\<open>q\<close> without).\<close>

definition handle_black_move ::
    "char option \<Rightarrow> board_state \<Rightarrow> int \<Rightarrow> int \<Rightarrow> int \<Rightarrow> int \<Rightarrow> (string \<times> board_state) option" where
  "handle_black_move cb pos from_x from_y to_x to_y =
     (case generate_move_notation pos from_x from_y to_x to_y BLACK of
        None \<Rightarrow> None
      | Some move_string \<Rightarrow>
          if at (board pos) to_x to_y < 0 then Some ([], pos)
          else
            (case is_black_move_legal pos from_x from_y to_x to_y of
               (legal, pos', pp) \<Rightarrow>
                 if \<not> legal then Some ([], pos')
                 else if king_is_in_check (board pp) BLACK then Some ([], pos')
                 else
                   (let user_input = (case cb of None \<Rightarrow> CHR ''q'' | Some c \<Rightarrow> c);
                        pp' = (if at (board pp) to_x to_y = BLACK_PAWN \<and> to_x = 7
                               then pp\<lparr>board := put (board pp) to_x to_y (promotion_piece BLACK user_input)\<rparr>
                               else pp)
                    in Some (move_string, pp'))))"

section \<open>Static evaluation (evaluation.cpp)\<close>

text \<open>
  Scores are C++ \<open>int\<close>s.  The model computes in \<open>int\<close> and lets a returned score
  outside the 32-bit range be \<open>None\<close>, as signed overflow is undefined in C++.
\<close>

definition INT_MIN :: int where
  "INT_MIN = - 2147483648"

definition INT_MAX :: int where
  "INT_MAX = 2147483647"

definition c_int :: "int \<Rightarrow> int option" where
  "c_int v = (if INT_MIN \<le> v \<and> v \<le> INT_MAX then Some v else None)"

text \<open>The piece-square tables that \<open>initialize_piece_square_tables\<close> copies into the
  static members.\<close>

definition PAWN_TABLE_WHITE :: "int list list" where
  "PAWN_TABLE_WHITE =
     [[0, 0, 0, 0, 0, 0, 0, 0],
      [50, 50, 50, 50, 50, 50, 50, 50],
      [10, 10, 20, 30, 30, 20, 10, 10],
      [5, 5, 10, 25, 25, 10, 5, 5],
      [0, 0, 0, 20, 20, 0, 0, 0],
      [5, - 5, - 10, 0, 0, - 10, - 5, 5],
      [5, 10, 10, - 20, - 20, 10, 10, 5],
      [0, 0, 0, 0, 0, 0, 0, 0]]"

definition KNIGHT_TABLE_WHITE :: "int list list" where
  "KNIGHT_TABLE_WHITE =
     [[- 50, - 40, - 30, - 30, - 30, - 30, - 40, - 50],
      [- 40, - 20, 0, 0, 0, 0, - 20, - 40],
      [- 30, 0, 10, 15, 15, 10, 0, - 30],
      [- 30, 5, 15, 20, 20, 15, 5, - 30],
      [- 30, 0, 15, 20, 20, 15, 0, - 30],
      [- 30, 5, 10, 15, 15, 10, 5, - 30],
      [- 40, - 20, 0, 5, 5, 0, - 20, - 40],
      [- 50, - 40, - 30, - 30, - 30, - 30, - 40, - 50]]"

definition BISHOP_TABLE_WHITE :: "int list list" where
  "BISHOP_TABLE_WHITE =
     [[- 20, - 10, - 10, - 10, - 10, - 10, - 10, - 20],
      [- 10, 0, 0, 0, 0, 0, 0, - 10],
      [- 10, 0, 5, 10, 10, 5, 0, - 10],
      [- 10, 5, 5, 10, 10, 5, 5, - 10],
      [- 10, 0, 10, 10, 10, 10, 0, - 10],
      [- 10, 10, 10, 10, 10, 10, 10, - 10],
      [- 10, 5, 0, 0, 0, 0, 5, - 10],
      [- 20, - 10, - 10, - 10, - 10, - 10, - 10, - 20]]"

definition ROOK_TABLE_WHITE :: "int list list" where
  "ROOK_TABLE_WHITE =
     [[0, 0, 0, 0, 0, 0, 0, 0],
      [5, 10, 10, 10, 10, 10, 10, 5],
      [- 5, 0, 0, 0, 0, 0, 0, - 5],
      [- 5, 0, 0, 0, 0, 0, 0, - 5],
      [- 5, 0, 0, 0, 0, 0, 0, - 5],
      [- 5, 0, 0, 0, 0, 0, 0, - 5],
      [- 5, 0, 0, 0, 0, 0, 0, - 5],
      [0, 0, 0, 5, 5, 3, 0, 0]]"

definition QUEEN_TABLE_WHITE :: "int list list" where
  "QUEEN_TABLE_WHITE =
     [[- 20, - 10, - 10, - 5, - 5, - 10, - 10, - 20],
      [- 10, 0, 0, 0, 0, 0, 0, - 10],
      [- 10, 0, 5, 5, 5, 5, 0, - 10],
      [- 5, 0, 5, 5, 5, 5, 0, - 5],
      [0, 0, 5, 5, 5, 5, 0, - 5],
      [- 10, 5, 5, 5, 5, 5, 0, - 10],
      [- 10, 0, 5, 0, 0, 0, 0, - 10],
      [- 20, - 10, - 10, - 5, - 5, - 10, - 10, - 20]]"

definition KING_MIDDLE_TABLE_WHITE :: "int list list" where
  "KING_MIDDLE_TABLE_WHITE =
     [[- 30, - 40, - 40, - 50, - 50, - 40, - 40, - 30],
      [- 30, - 40, - 40, - 50, - 50, - 40, - 40, - 30],
      [- 30, - 40, - 40, - 50, - 50, - 40, - 40, - 30],
      [- 30, - 40, - 40, - 50, - 50, - 40, - 40, - 30],
      [- 20, - 30, - 30, - 40, - 40, - 30, - 30, - 20],
      [- 10, - 20, - 20, - 20, - 20, - 20, - 20, - 10],
      [20, 20, 0, 0, 0, 0, 20, 20],
      [20, 30, 10, 0, 0, 10, 30, 20]]"

definition KING_END_TABLE_WHITE :: "int list list" where
  "KING_END_TABLE_WHITE =
     [[- 50, - 40, - 30, - 20, - 20, - 30, - 40, - 50],
      [- 30, - 20, - 10, 0, 0, - 10, - 20, - 30],
      [- 30, - 10, 20, 30, 30, 20, - 10, - 30],
      [- 30, - 10, 30, 40, 40, 30, - 10, - 30],
      [- 30, - 10, 30, 40, 40, 30, - 10, - 30],
      [- 30, - 10, 20, 30, 30, 20, - 10, - 30],
      [- 30, - 30, 0, 0, 0, 0, - 30, - 30],
      [- 50, - 30, - 30, - 30, - 30, - 30, - 30, - 50]]"

definition PAWN_TABLE_BLACK :: "int list list" where
  "PAWN_TABLE_BLACK =
     [[0, 0, 0, 0, 0, 0, 0, 0],
      [5, 10, 10, - 20, - 20, 10, 10, 5],
      [5, - 5, - 10, 0, 0, - 10, - 5, 5],
      [0, 0, 0, 20, 20, 0, 0, 0],
      [5, 5, 10, 25, 25, 10, 5, 5],
      [10, 10, 20, 30, 30, 20, 10, 10],
      [50, 50, 50, 50, 50, 50, 50, 50],
      [0, 0, 0, 0, 0, 0, 0, 0]]"

definition KNIGHT_TABLE_BLACK :: "int list list" where
  "KNIGHT_TABLE_BLACK =
     [[- 50, - 40, - 30, - 30, - 30, - 30, - 40, - 50],
      [- 40, - 20, 0, 5, 5, 0, - 20, - 40],
      [- 30, 5, 10, 15, 15, 10, 5, - 30],
      [- 30, 0, 15, 20, 20, 15, 0, - 30],
      [- 30, 5, 15, 20, 20, 15, 5, - 30],
      [- 30, 0, 10, 15, 15, 10, 0, - 30],
      [- 40, - 20, 0, 0, 0, 0, - 20, - 40],
      [- 50, - 40, - 30, - 30, - 30, - 30, - 40, - 50]]"

definition BISHOP_TABLE_BLACK :: "int list list" where
  "BISHOP_TABLE_BLACK =
     [[- 20, - 10, - 10, - 10, - 10, - 10, - 10, - 20],
      [- 10, 5, 0, 0, 0, 0, 5, - 10],
      [- 10, 10, 10, 10, 10, 10, 10, - 10],
      [- 10, 0, 10, 10, 10, 10, 0, - 10],
      [- 10, 5, 5, 10, 10, 5, 5, - 10],
      [- 10, 0, 5, 10, 10, 5, 0, - 10],
      [- 10, 0, 0, 0, 0, 0, 0, - 10],
      [- 20, - 10, - 10, - 10, - 10, - 10, - 10, - 20]]"

definition ROOK_TABLE_BLACK :: "int list list" where
  "ROOK_TABLE_BLACK =
     [[0, 0, 0, 5, 5, 3, 0, 0],
      [- 5, 0, 0, 0, 0, 0, 0, - 5],
      [- 5, 0, 0, 0, 0, 0, 0, - 5],
      [- 5, 0, 0, 0, 0, 0, 0, - 5],
      [- 5, 0, 0, 0, 0, 0, 0, - 5],
      [- 5, 0, 0, 0, 0, 0, 0, - 5],
      [5, 10, 10, 10, 10, 10, 10, 5],
      [0, 0, 0, 0, 0, 0, 0, 0]]"

definition QUEEN_TABLE_BLACK :: "int list list" where
  "QUEEN_TABLE_BLACK =
     [[- 20, - 10, - 10, - 5, - 5, - 10, - 10, - 20],
      [- 10, 0, 5, 0, 0, 0, 0, - 10],
      [- 10, 5, 5, 5, 5, 5, 0, - 10],
      [0, 0, 5, 5, 5, 5, 0, - 5],
      [- 5, 0, 5, 5, 5, 5, 0, - 5],
      [- 10, 0, 5, 5, 5, 5, 0, - 10],
      [- 10, 0, 0, 0, 0, 0, 0, - 10],
      [- 20, - 10, - 10, - 5, - 5, - 10, - 10, - 20]]"

definition KING_MIDDLE_TABLE_BLACK :: "int list list" where
  "KING_MIDDLE_TABLE_BLACK =
     [[20, 30, 10, 0, 0, 10, 30, 20],
      [20, 20, 0, 0, 0, 0, 20, 20],
      [- 10, - 20, - 20, - 20, - 20, - 20, - 20, - 10],
      [- 20, - 30, - 30, - 40, - 40, - 30, - 30, - 20],
      [- 30, - 40, - 40, - 50, - 50, - 40, - 40, - 30],
      [- 30, - 40, - 40, - 50, - 50, - 40, - 40, - 30],
      [- 30, - 40, - 40, - 50, - 50, - 40, - 40, - 30],
      [- 30, - 40, - 40, - 50, - 50, - 40, - 40, - 30]]"

definition KING_END_TABLE_BLACK :: "int list list" where
  "KING_END_TABLE_BLACK =
     [[- 50, - 30, - 30, - 30, - 30, - 30, - 30, - 50],
      [- 30, - 30, 0, 0, 0, 0, - 30, - 30],
      [- 30, - 10, 20, 30, 30, 20, - 10, - 30],
      [- 30, - 10, 30, 40, 40, 30, - 10, - 30],
      [- 30, - 10, 30, 40, 40, 30, - 10, - 30],
      [- 30, - 10, 20, 30, 30, 20, - 10, - 30],
      [- 30, - 20, - 10, 0, 0, - 10, - 20, - 30],
      [- 50, - 40, - 30, - 20, - 20, - 30, - 40, - 50]]"

text \<open>The running values of the board loop of \<open>Evaluation::evaluate\<close>.\<close>

record eval_acc =
  score :: int
  legal_moves_white :: int
  legal_moves_black :: int
  wk_i :: int
  wk_j :: int
  bk_i :: int
  bk_j :: int
  white_queen_on_board :: bool
  black_queen_on_board :: bool
  num_of_white_minor_pieces :: int
  num_of_black_minor_pieces :: int
  white_pawns_in_file :: "int list"
  black_pawns_in_file :: "int list"

definition eval_init :: eval_acc where
  "eval_init = \<lparr>score = 0, legal_moves_white = 0, legal_moves_black = 0,
                 wk_i = 0, wk_j = 0, bk_i = 0, bk_j = 0,
                 white_queen_on_board = False, black_queen_on_board = False,
                 num_of_white_minor_pieces = 0, num_of_black_minor_pieces = 0,
                 white_pawns_in_file = [0, 0, 0, 0, 0, 0, 0, 0],
                 black_pawns_in_file = [0, 0, 0, 0, 0, 0, 0, 0]\<rparr>"

definition count :: "('a \<Rightarrow> bool) \<Rightarrow> 'a list \<Rightarrow> int" where
  "count P xs = int (length (filter P xs))"

definition bump :: "int list \<Rightarrow> int \<Rightarrow> int list" where
  "bump xs n = xs[nat n := xs ! nat n + 1]"

text \<open>The target test of the mobility count and of the engine's move loops:
  \<open><= 0\<close> for a white mover, \<open>>= 0\<close> for a black one.\<close>

definition own_free :: "side \<Rightarrow> int \<Rightarrow> bool" where
  "own_free s c = (if s = WHITE then c \<le> 0 else c \<ge> 0)"

text \<open>Mobility of a bishop or rook along one direction: count the square when it is
  free for the mover, stop at the first piece.\<close>

fun slide_count :: "int list list \<Rightarrow> side \<Rightarrow> (int \<times> int) list \<Rightarrow> int" where
  "slide_count b s [] = 0"
| "slide_count b s (sq # path) =
     (if own_free s (at b (fst sq) (snd sq)) then 1 else 0)
     + (if at b (fst sq) (snd sq) \<noteq> 0 then 0 else slide_count b s path)"

definition step_count :: "int list list \<Rightarrow> side \<Rightarrow> int \<Rightarrow> int \<Rightarrow> (int \<times> int) list \<Rightarrow> int" where
  "step_count b s m n ds =
     count (\<lambda>d. on_board (m + fst d) (n + snd d) \<and> own_free s (at b (m + fst d) (n + snd d))) ds"

definition king_count :: "int list list \<Rightarrow> side \<Rightarrow> int \<Rightarrow> int \<Rightarrow> int" where
  "king_count b s m n =
     count (\<lambda>d. on_board (m + fst d) (n + snd d) \<and> own_free s (at b (m + fst d) (n + snd d))
                 \<and> \<not> under_control b (m + fst d) (n + snd d) (opponent_of s)) every_direction"

definition bool_int :: "bool \<Rightarrow> int" where
  "bool_int c = (if c then 1 else 0)"

text \<open>One cell of the board loop.  A pawn reads the row in front of it with no bounds
  test (\<open>position.board[m - 1][n]\<close> for white, \<open>[m + 1][n]\<close> for black).\<close>

definition evaluate_square :: "board_state \<Rightarrow> eval_acc \<Rightarrow> int \<times> int \<Rightarrow> eval_acc option" where
  "evaluate_square p a sq =
     (let b = board p; m = fst sq; n = snd sq; c = at b m n in
      if c = WHITE_PAWN then
        (if \<not> on_board (m - 1) n then None
         else Some (a\<lparr>score := score a + 100 + at PAWN_TABLE_WHITE m n,
                      white_pawns_in_file := bump (white_pawns_in_file a) n,
                      legal_moves_white := legal_moves_white a
                        + bool_int (at b (m - 1) n = 0)
                        + bool_int (m = 6 \<and> at b (m - 1) n = 0 \<and> at b (m - 2) n = 0)
                        + bool_int (n \<noteq> 0 \<and> at b (m - 1) (n - 1) < 0)
                        + bool_int (n \<noteq> 7 \<and> at b (m - 1) (n + 1) < 0)
                        + bool_int (n \<noteq> 7 \<and> at b m (n + 1) = - 1 \<and> flag (pawn_two_squares_black p) (n + 1))
                        + bool_int (n \<noteq> 0 \<and> at b m (n - 1) = - 1 \<and> flag (pawn_two_squares_black p) (n - 1))\<rparr>))
      else if c = WHITE_KNIGHT then
        Some (a\<lparr>score := score a + 320 + at KNIGHT_TABLE_WHITE m n,
                 num_of_white_minor_pieces := num_of_white_minor_pieces a + 1,
                 legal_moves_white := legal_moves_white a + step_count b WHITE m n knight_move\<rparr>)
      else if c = WHITE_BISHOP then
        Some (a\<lparr>score := score a + 330 + at BISHOP_TABLE_WHITE m n,
                 num_of_white_minor_pieces := num_of_white_minor_pieces a + 1,
                 legal_moves_white := legal_moves_white a
                   + sum_list (map (\<lambda>d. slide_count b WHITE (ray m n d)) bishop_direction)\<rparr>)
      else if c = WHITE_ROOK then
        Some (a\<lparr>score := score a + 500 + at ROOK_TABLE_WHITE m n,
                 num_of_white_minor_pieces := num_of_white_minor_pieces a + 1,
                 legal_moves_white := legal_moves_white a
                   + sum_list (map (\<lambda>d. slide_count b WHITE (ray m n d)) rook_direction)\<rparr>)
      else if c = WHITE_QUEEN then
        Some (a\<lparr>score := score a + 900 + at QUEEN_TABLE_WHITE m n, white_queen_on_board := True\<rparr>)
      else if c = WHITE_KING then
        Some (a\<lparr>wk_i := m, wk_j := n,
                 legal_moves_white := legal_moves_white a + king_count b WHITE m n\<rparr>)
      else if c = BLACK_PAWN then
        (if \<not> on_board (m + 1) n then None
         else Some (a\<lparr>score := score a - 100 - at PAWN_TABLE_BLACK m n,
                      black_pawns_in_file := bump (black_pawns_in_file a) n,
                      legal_moves_black := legal_moves_black a
                        + bool_int (at b (m + 1) n = 0)
                        + bool_int (m = 1 \<and> at b (m + 1) n = 0 \<and> at b (m + 2) n = 0)
                        + bool_int (n \<noteq> 0 \<and> at b (m + 1) (n - 1) > 0)
                        + bool_int (n \<noteq> 7 \<and> at b (m + 1) (n + 1) > 0)
                        + bool_int (n \<noteq> 7 \<and> at b m (n + 1) = 1 \<and> flag (pawn_two_squares_white p) (n + 1))
                        + bool_int (n \<noteq> 0 \<and> at b m (n - 1) = 1 \<and> flag (pawn_two_squares_white p) (n - 1))\<rparr>))
      else if c = BLACK_KNIGHT then
        Some (a\<lparr>score := score a - 320 - at KNIGHT_TABLE_BLACK m n,
                 num_of_black_minor_pieces := num_of_black_minor_pieces a + 1,
                 legal_moves_black := legal_moves_black a + step_count b BLACK m n knight_move\<rparr>)
      else if c = BLACK_BISHOP then
        Some (a\<lparr>score := score a - 330 - at BISHOP_TABLE_BLACK m n,
                 num_of_black_minor_pieces := num_of_black_minor_pieces a + 1,
                 legal_moves_black := legal_moves_black a
                   + sum_list (map (\<lambda>d. slide_count b BLACK (ray m n d)) bishop_direction)\<rparr>)
      else if c = BLACK_ROOK then
        Some (a\<lparr>score := score a - 500 - at ROOK_TABLE_BLACK m n,
                 num_of_black_minor_pieces := num_of_black_minor_pieces a + 1,
                 legal_moves_black := legal_moves_black a
                   + sum_list (map (\<lambda>d. slide_count b BLACK (ray m n d)) rook_direction)\<rparr>)
      else if c = BLACK_QUEEN then
        Some (a\<lparr>score := score a - 900 - at QUEEN_TABLE_BLACK m n, black_queen_on_board := True\<rparr>)
      else if c = BLACK_KING then
        Some (a\<lparr>bk_i := m, bk_j := n,
                 legal_moves_black := legal_moves_black a + king_count b BLACK m n\<rparr>)
      else Some a)"

fun fold_opt :: "('s \<Rightarrow> 'a \<Rightarrow> 's option) \<Rightarrow> 'a list \<Rightarrow> 's \<Rightarrow> 's option" where
  "fold_opt f [] s = Some s"
| "fold_opt f (x # xs) s = (case f s x of None \<Rightarrow> None | Some s' \<Rightarrow> fold_opt f xs s')"

text \<open>One file of the pawn-structure loop.  The state is the score, the two island
  counts and the two island flags.\<close>

definition pawn_structure_step ::
    "int list \<Rightarrow> int list \<Rightarrow> int \<Rightarrow> int \<times> int \<times> int \<times> bool \<times> bool \<Rightarrow> int \<times> int \<times> int \<times> bool \<times> bool" where
  "pawn_structure_step wpf bpf i st =
     (case st of (sc, white_pawn_islands, black_pawn_islands, white_flag, black_flag) \<Rightarrow>
      let w = wpf ! nat i; k = bpf ! nat i;
          sc1 = (if w > 1 then sc - w * 15 else sc);
          sc2 = (if k > 1 then sc1 + k * 15 else sc1);
          wi = (if w > 0 \<and> \<not> white_flag then white_pawn_islands + 1 else white_pawn_islands);
          wfl1 = (if w > 0 \<and> \<not> white_flag then True else white_flag);
          wfl2 = (if w = 0 then False else wfl1);
          bi = (if k > 0 \<and> \<not> black_flag then black_pawn_islands + 1 else black_pawn_islands);
          bfl1 = (if k > 0 \<and> \<not> black_flag then True else black_flag);
          bfl2 = (if k = 0 then False else bfl1);
          sc3 = (if i \<noteq> 0 \<and> i \<noteq> 7 \<and> w > 0 \<and> wpf ! nat (i - 1) = 0 \<and> wpf ! nat (i + 1) = 0
                 then sc2 - 30 else sc2);
          sc4 = (if i \<noteq> 0 \<and> i \<noteq> 7 \<and> k > 0 \<and> bpf ! nat (i - 1) = 0 \<and> bpf ! nat (i + 1) = 0
                 then sc3 + 30 else sc3)
      in (sc4, wi, bi, wfl2, bfl2))"

text \<open>The part of \<open>evaluate\<close> after the board loop: mobility, king table by game
  phase, pawn structure.\<close>

definition evaluate_finish :: "eval_acc \<Rightarrow> int" where
  "evaluate_finish a =
     (let sc1 = score a + 10 * (legal_moves_white a - legal_moves_black a);
          is_end_game =
            ((\<not> white_queen_on_board a \<and> \<not> black_queen_on_board a)
             \<or> (white_queen_on_board a \<and> num_of_white_minor_pieces a \<le> 1)
             \<or> (black_queen_on_board a \<and> num_of_black_minor_pieces a \<le> 1));
          sc2 = sc1 + (if is_end_game then at KING_END_TABLE_WHITE (wk_i a) (wk_j a)
                       else at KING_MIDDLE_TABLE_WHITE (wk_i a) (wk_j a));
          sc3 = sc2 - (if is_end_game then at KING_END_TABLE_BLACK (bk_i a) (bk_j a)
                       else at KING_MIDDLE_TABLE_BLACK (bk_i a) (bk_j a))
      in case fold (pawn_structure_step (white_pawns_in_file a) (black_pawns_in_file a)) idx8
                (sc3, 0, 0, False, False) of
           (sc4, white_pawn_islands, black_pawn_islands, _, _) \<Rightarrow>
             sc4 - 10 * (white_pawn_islands - black_pawn_islands))"

text \<open>\<open>Evaluation::evaluate\<close>: stalemate of either side is 0, checkmate is
  \<open>-100000 - depth\<close> or \<open>100000 + depth\<close>, otherwise the board is scored.\<close>

definition evaluate :: "board_state \<Rightarrow> int \<Rightarrow> int option" where
  "evaluate pos depth =
     (case is_stalemate pos BLACK of None \<Rightarrow> None
      | Some True \<Rightarrow> c_int 0
      | Some False \<Rightarrow>
     (case is_stalemate pos WHITE of None \<Rightarrow> None
      | Some True \<Rightarrow> c_int 0
      | Some False \<Rightarrow>
     (case is_checkmate pos WHITE of None \<Rightarrow> None
      | Some True \<Rightarrow> c_int (- 100000 - depth)
      | Some False \<Rightarrow>
     (case is_checkmate pos BLACK of None \<Rightarrow> None
      | Some True \<Rightarrow> c_int (100000 + depth)
      | Some False \<Rightarrow>
     (case fold_opt (evaluate_square pos) squares eval_init of None \<Rightarrow> None
      | Some a \<Rightarrow> c_int (evaluate_finish a))))))"

section \<open>Move generation of the engine (engine.cpp)\<close>

text \<open>
  \<open>Engine::make_white_move\<close>, \<open>make_black_move\<close>, \<open>get_best_white_moves\<close> and the two
  halves of \<open>adv_minimax\<close> each contain a copy of the same loops over the squares.  The
  copies differ in the order of the promotion pieces and of the two pawn captures, and
  in the squares the white queenside castling tests for attack; these are parameters
  here.  A candidate is written to a copy of the position (target first, then the
  source cleared) and kept when the mover's king is not in check on it.

  The loops of \<open>adv_minimax\<close> leave by \<open>break\<close> when \<open>beta <= alpha\<close>, and \<open>break\<close> leaves
  the innermost loop only.  So the candidates of one square come as items: a
  \<open>Single\<close> candidate stands directly in the loop over the columns (a break skips the
  rest of the row), a \<open>Group\<close> is the body of an inner loop (the promotion pieces, the
  knight moves, one direction of a sliding piece, the king steps; a break skips the
  rest of the group).  \<open>Crash\<close> marks a pawn in front of which there is no row: the
  source reads \<open>position.board[m + dir][n]\<close> there.
\<close>

type_synonym cand = "(int \<times> int \<times> int \<times> int) \<times> board_state"

datatype item = Single cand | Group "cand list" | Crash

definition legal :: "side \<Rightarrow> cand list \<Rightarrow> cand list" where
  "legal s cs = filter (\<lambda>c. \<not> king_is_in_check (board (snd c)) s) cs"

definition single :: "side \<Rightarrow> cand \<Rightarrow> item list" where
  "single s c = (if \<not> king_is_in_check (board (snd c)) s then [Single c] else [])"

definition placed :: "board_state \<Rightarrow> int \<Rightarrow> int \<Rightarrow> int \<Rightarrow> int \<Rightarrow> int \<Rightarrow> board_state" where
  "placed p m n ti tj piece = p\<lparr>board := put (put (board p) ti tj piece) m n 0\<rparr>"

definition enemy :: "side \<Rightarrow> int \<Rightarrow> bool" where
  "enemy s c = (if s = WHITE then c < 0 else c > 0)"

definition own_two_squares :: "side \<Rightarrow> board_state \<Rightarrow> int \<Rightarrow> board_state" where
  "own_two_squares s pp n =
     (if s = WHITE then pp\<lparr>pawn_two_squares_white := set_flag (pawn_two_squares_white pp) n True\<rparr>
      else pp\<lparr>pawn_two_squares_black := set_flag (pawn_two_squares_black pp) n True\<rparr>)"

definition pawn_items :: "side \<Rightarrow> int list \<Rightarrow> int list \<Rightarrow> board_state \<Rightarrow> int \<Rightarrow> int \<Rightarrow> item list" where
  "pawn_items s promo cap_order p m n =
     (let b = board p;
          dir = (if s = WHITE then - 1 else 1);
          last_rank = (if s = WHITE then 0 else 7);
          start_rank = (if s = WHITE then 6 else 1);
          pawn = pawn_of s;
          their_pawn = pawn_of (opponent_of s);
          their_flags = (if s = WHITE then pawn_two_squares_black p else pawn_two_squares_white p);
          to = (\<lambda>ti tj piece. ((m, n, ti, tj), placed p m n ti tj piece));
          step_to = (\<lambda>tj. if m + dir \<noteq> last_rank then single s (to (m + dir) tj pawn)
                           else [Group (legal s (map (to (m + dir) tj) promo))]);
          edge = (\<lambda>dc. if dc = - 1 then 0 else 7)
      in
      if \<not> on_board (m + dir) n then [Crash]
      else
        (if at b (m + dir) n = 0 then step_to n else [])
        @ (if m = start_rank \<and> at b (m + dir) n = 0 \<and> at b (m + 2 * dir) n = 0
           then single s ((m, n, m + 2 * dir, n), own_two_squares s (placed p m n (m + 2 * dir) n pawn) n)
           else [])
        @ concat (map (\<lambda>dc. if n \<noteq> edge dc \<and> enemy s (at b (m + dir) (n + dc)) then step_to (n + dc)
                            else []) cap_order)
        @ concat (map (\<lambda>dc. if n \<noteq> edge dc \<and> at b m (n + dc) = their_pawn \<and> flag their_flags (n + dc)
                            then single s ((m, n, m + dir, n + dc),
                                           (placed p m n (m + dir) (n + dc) pawn)
                                             \<lparr>board := put (put (put b (m + dir) (n + dc) pawn) m n 0) m (n + dc) 0\<rparr>)
                            else []) [1, - 1]))"

definition knight_items :: "side \<Rightarrow> board_state \<Rightarrow> int \<Rightarrow> int \<Rightarrow> item list" where
  "knight_items s p m n =
     [Group (legal s (concat (map
        (\<lambda>d. let k_i = m + fst d; k_j = n + snd d in
              if on_board k_i k_j \<and> under_knight_control m n k_i k_j \<and> own_free s (at (board p) k_i k_j)
              then [((m, n, k_i, k_j), placed p m n k_i k_j (knight_of s))] else [])
        knight_move)))]"

text \<open>One direction of a bishop, rook or queen: the while loop.  \<open>ctl\<close> is the control
  predicate the source tests again for each square, \<open>fix\<close> the change of the castling
  flags a rook move makes.\<close>

fun slide_cands ::
    "(int list list \<Rightarrow> int \<Rightarrow> int \<Rightarrow> int \<Rightarrow> int \<Rightarrow> bool) \<Rightarrow> (board_state \<Rightarrow> board_state) \<Rightarrow> side
      \<Rightarrow> board_state \<Rightarrow> int \<Rightarrow> int \<Rightarrow> int \<Rightarrow> (int \<times> int) list \<Rightarrow> cand list" where
  "slide_cands ctl fix s p m n piece [] = []"
| "slide_cands ctl fix s p m n piece (sq # path) =
     (if ctl (board p) m n (fst sq) (snd sq) \<and> own_free s (at (board p) (fst sq) (snd sq))
      then [((m, n, fst sq, snd sq), fix (placed p m n (fst sq) (snd sq) piece))] else [])
     @ (if at (board p) (fst sq) (snd sq) \<noteq> 0 then []
        else slide_cands ctl fix s p m n piece path)"

definition slide_items ::
    "(int list list \<Rightarrow> int \<Rightarrow> int \<Rightarrow> int \<Rightarrow> int \<Rightarrow> bool) \<Rightarrow> (board_state \<Rightarrow> board_state) \<Rightarrow> side
      \<Rightarrow> board_state \<Rightarrow> int \<Rightarrow> int \<Rightarrow> int \<Rightarrow> (int \<times> int) list \<Rightarrow> item list" where
  "slide_items ctl fix s p m n piece dirs =
     map (\<lambda>d. Group (legal s (slide_cands ctl fix s p m n piece (ray m n d)))) dirs"

definition clear_castle :: "side \<Rightarrow> int \<Rightarrow> board_state \<Rightarrow> board_state" where
  "clear_castle s k pp =
     (if s = WHITE then pp\<lparr>can_castle_white := set_flag (can_castle_white pp) k False\<rparr>
      else pp\<lparr>can_castle_black := set_flag (can_castle_black pp) k False\<rparr>)"

definition back_rank :: "side \<Rightarrow> int" where
  "back_rank s = (if s = WHITE then 7 else 0)"

definition rook_fix :: "side \<Rightarrow> int \<Rightarrow> int \<Rightarrow> board_state \<Rightarrow> board_state" where
  "rook_fix s m n pp =
     (let r1 = (if m = back_rank s \<and> n = 0 then clear_castle s 0 pp else pp)
      in if m = back_rank s \<and> n = 7 then clear_castle s 1 r1 else r1)"

definition castled :: "side \<Rightarrow> board_state \<Rightarrow> int \<Rightarrow> int \<Rightarrow> int \<Rightarrow> board_state" where
  "castled s p king_to rook_from rook_to =
     (let r = back_rank s;
          b1 = put (board p) r king_to (king_of s);
          b2 = put b1 r 4 0;
          b3 = put b2 r rook_from 0;
          b4 = put b3 r rook_to (rook_of s)
      in clear_castle s 1 (clear_castle s 0 (p\<lparr>board := b4\<rparr>)))"

text \<open>The king: the loop over the eight steps, then the two castling tests.  \<open>qs\<close> are the
  three columns of the back rank that the queenside test requires to be unattacked.\<close>

definition king_items :: "side \<Rightarrow> int list \<Rightarrow> board_state \<Rightarrow> int \<Rightarrow> int \<Rightarrow> item list" where
  "king_items s qs p m n =
     (let b = board p; r = back_rank s; opp = opponent_of s;
          castle_flags = (if s = WHITE then can_castle_white p else can_castle_black p)
      in
      [Group (legal s (concat (map
         (\<lambda>d. let k_i = m + fst d; k_j = n + snd d in
               if on_board k_i k_j \<and> under_king_control m n k_i k_j \<and> own_free s (at b k_i k_j)
               then [((m, n, k_i, k_j),
                      clear_castle s 1 (clear_castle s 0 (placed p m n k_i k_j (king_of s))))]
               else [])
         every_direction)))]
      @ (if m = r \<and> n = 4 \<and> at b r 5 = 0 \<and> at b r 6 = 0 \<and> at b r 7 = rook_of s
            \<and> \<not> under_control b r 4 opp \<and> \<not> under_control b r 5 opp \<and> \<not> under_control b r 6 opp
            \<and> flag castle_flags 1
         then single s ((r, 4, r, 6), castled s p 6 7 5) else [])
      @ (if m = r \<and> n = 4 \<and> at b r 1 = 0 \<and> at b r 2 = 0 \<and> at b r 3 = 0 \<and> at b r 0 = rook_of s
            \<and> list_all (\<lambda>j. \<not> under_control b r j opp) qs
            \<and> flag castle_flags 0
         then single s ((r, 4, r, 2), castled s p 2 0 3) else []))"

definition square_items ::
    "side \<Rightarrow> int list \<Rightarrow> int list \<Rightarrow> int list \<Rightarrow> board_state \<Rightarrow> int \<Rightarrow> int \<Rightarrow> item list" where
  "square_items s promo cap_order qs p m n =
     (let c = at (board p) m n in
      if c = pawn_of s then pawn_items s promo cap_order p m n
      else if c = knight_of s then knight_items s p m n
      else if c = bishop_of s then
        slide_items under_bishop_control (\<lambda>pp. pp) s p m n (bishop_of s) bishop_direction
      else if c = rook_of s then
        slide_items under_rook_control (rook_fix s m n) s p m n (rook_of s) rook_direction
      else if c = queen_of s then
        slide_items under_queen_control (\<lambda>pp. pp) s p m n (queen_of s) every_direction
      else if c = king_of s then king_items s qs p m n
      else [])"

definition move_rows ::
    "side \<Rightarrow> int list \<Rightarrow> int list \<Rightarrow> int list \<Rightarrow> board_state \<Rightarrow> item list list" where
  "move_rows s promo cap_order qs p =
     map (\<lambda>m. concat (map (\<lambda>n. square_items s promo cap_order qs p m n) idx8)) idx8"

text \<open>The five copies.  \<open>make_white_move\<close> and \<open>get_best_white_moves\<close> promote from queen
  down to knight, capture towards column \<open>n + 1\<close> first and test the columns 2, 3, 4 for
  the queenside castling; the maximising half of \<open>adv_minimax\<close> promotes from knight
  up, captures towards \<open>n - 1\<close> first and tests the columns 1, 2, 3.  \<open>make_black_move\<close>
  and the minimising half of \<open>adv_minimax\<close> agree.\<close>

definition root_rows_white :: "board_state \<Rightarrow> item list list" where
  "root_rows_white p = move_rows WHITE [5, 4, 3, 2] [1, - 1] [2, 3, 4] p"

definition search_rows_white :: "board_state \<Rightarrow> item list list" where
  "search_rows_white p = move_rows WHITE [2, 3, 4, 5] [- 1, 1] [1, 2, 3] p"

definition rows_black :: "board_state \<Rightarrow> item list list" where
  "rows_black p = move_rows BLACK [- 5, - 4, - 3, - 2] [- 1, 1] [2, 3, 4] p"

text \<open>The candidates of some rows in loop order, for a loop without \<open>break\<close>.\<close>

fun items_cands :: "item list \<Rightarrow> cand list option" where
  "items_cands [] = Some []"
| "items_cands (Crash # r) = None"
| "items_cands (Single c # r) = map_option ((#) c) (items_cands r)"
| "items_cands (Group cs # r) = map_option ((@) cs) (items_cands r)"

section \<open>Search (engine.cpp)\<close>

text \<open>\<open>Engine::game_is_over\<close>.\<close>

definition game_is_over :: "board_state \<Rightarrow> bool option" where
  "game_is_over pos =
     (case is_checkmate pos WHITE of None \<Rightarrow> None | Some True \<Rightarrow> Some True | Some False \<Rightarrow>
     (case is_checkmate pos BLACK of None \<Rightarrow> None | Some True \<Rightarrow> Some True | Some False \<Rightarrow>
     (case is_stalemate pos WHITE of None \<Rightarrow> None | Some True \<Rightarrow> Some True | Some False \<Rightarrow>
     (case is_stalemate pos BLACK of None \<Rightarrow> None | Some True \<Rightarrow> Some True | Some False \<Rightarrow>
        Some False))))"

text \<open>
  The loops of the maximising half of \<open>adv_minimax\<close>.  The state is \<open>(score, alpha)\<close>;
  \<open>rec\<close> is the recursive call on a candidate with the current window.  A child
  returns the new state and whether \<open>beta <= alpha\<close> made it break.
\<close>

definition max_child ::
    "(board_state \<Rightarrow> int \<Rightarrow> int \<Rightarrow> int option) \<Rightarrow> int \<Rightarrow> cand \<Rightarrow> int \<times> int \<Rightarrow> ((int \<times> int) \<times> bool) option" where
  "max_child rec beta c st =
     (case rec (snd c) (snd st) beta of
        None \<Rightarrow> None
      | Some v \<Rightarrow> (let sc = max (fst st) v; alpha = max (snd st) sc in Some ((sc, alpha), beta \<le> alpha)))"

fun max_group ::
    "(board_state \<Rightarrow> int \<Rightarrow> int \<Rightarrow> int option) \<Rightarrow> int \<Rightarrow> cand list \<Rightarrow> int \<times> int \<Rightarrow> (int \<times> int) option" where
  "max_group rec beta [] st = Some st"
| "max_group rec beta (c # cs) st =
     (case max_child rec beta c st of
        None \<Rightarrow> None
      | Some (st', brk) \<Rightarrow> if brk then Some st' else max_group rec beta cs st')"

fun max_row ::
    "(board_state \<Rightarrow> int \<Rightarrow> int \<Rightarrow> int option) \<Rightarrow> int \<Rightarrow> item list \<Rightarrow> int \<times> int \<Rightarrow> (int \<times> int) option" where
  "max_row rec beta [] st = Some st"
| "max_row rec beta (Crash # r) st = None"
| "max_row rec beta (Group cs # r) st =
     (case max_group rec beta cs st of None \<Rightarrow> None | Some st' \<Rightarrow> max_row rec beta r st')"
| "max_row rec beta (Single c # r) st =
     (case max_child rec beta c st of
        None \<Rightarrow> None
      | Some (st', brk) \<Rightarrow> if brk then Some st' else max_row rec beta r st')"

definition max_rows ::
    "(board_state \<Rightarrow> int \<Rightarrow> int \<Rightarrow> int option) \<Rightarrow> int \<Rightarrow> item list list \<Rightarrow> int \<times> int \<Rightarrow> (int \<times> int) option" where
  "max_rows rec beta rows st = fold_opt (\<lambda>st r. max_row rec beta r st) rows st"

text \<open>The loops of the minimising half; the state is \<open>(score, beta)\<close>.\<close>

definition min_child ::
    "(board_state \<Rightarrow> int \<Rightarrow> int \<Rightarrow> int option) \<Rightarrow> int \<Rightarrow> cand \<Rightarrow> int \<times> int \<Rightarrow> ((int \<times> int) \<times> bool) option" where
  "min_child rec alpha c st =
     (case rec (snd c) alpha (snd st) of
        None \<Rightarrow> None
      | Some v \<Rightarrow> (let sc = min (fst st) v; beta = min (snd st) sc in Some ((sc, beta), beta \<le> alpha)))"

fun min_group ::
    "(board_state \<Rightarrow> int \<Rightarrow> int \<Rightarrow> int option) \<Rightarrow> int \<Rightarrow> cand list \<Rightarrow> int \<times> int \<Rightarrow> (int \<times> int) option" where
  "min_group rec alpha [] st = Some st"
| "min_group rec alpha (c # cs) st =
     (case min_child rec alpha c st of
        None \<Rightarrow> None
      | Some (st', brk) \<Rightarrow> if brk then Some st' else min_group rec alpha cs st')"

fun min_row ::
    "(board_state \<Rightarrow> int \<Rightarrow> int \<Rightarrow> int option) \<Rightarrow> int \<Rightarrow> item list \<Rightarrow> int \<times> int \<Rightarrow> (int \<times> int) option" where
  "min_row rec alpha [] st = Some st"
| "min_row rec alpha (Crash # r) st = None"
| "min_row rec alpha (Group cs # r) st =
     (case min_group rec alpha cs st of None \<Rightarrow> None | Some st' \<Rightarrow> min_row rec alpha r st')"
| "min_row rec alpha (Single c # r) st =
     (case min_child rec alpha c st of
        None \<Rightarrow> None
      | Some (st', brk) \<Rightarrow> if brk then Some st' else min_row rec alpha r st')"

definition min_rows ::
    "(board_state \<Rightarrow> int \<Rightarrow> int \<Rightarrow> int option) \<Rightarrow> int \<Rightarrow> item list list \<Rightarrow> int \<times> int \<Rightarrow> (int \<times> int) option" where
  "min_rows rec alpha rows st = fold_opt (\<lambda>st r. min_row rec alpha r st) rows st"

text \<open>
  \<open>Engine::adv_minimax\<close>.  The depth is a \<open>nat\<close>: the callers pass \<open>DEPTH - 1\<close> and each
  level passes \<open>depth - 1\<close> until 0.  The position is evaluated first; at depth 0 the
  game-over test is not made.  The node counter \<open>paths\<close> is not modelled.  The
  argument is a reference to the caller's copy, whose en-passant flags the routine
  resets; the caller overwrites the copy before it reads it again.
\<close>

primrec adv_minimax :: "nat \<Rightarrow> board_state \<Rightarrow> bool \<Rightarrow> int \<Rightarrow> int \<Rightarrow> int option" where
  "adv_minimax 0 pos maximizingPlayer alpha beta = evaluate pos 0"
| "adv_minimax (Suc d) pos maximizingPlayer alpha beta =
     (case evaluate pos (int (Suc d)) of
        None \<Rightarrow> None
      | Some sc \<Rightarrow>
          (case game_is_over pos of
             None \<Rightarrow> None
           | Some True \<Rightarrow> Some sc
           | Some False \<Rightarrow>
               if maximizingPlayer then
                 map_option fst
                   (max_rows (\<lambda>c a b. adv_minimax d c False a b) beta
                      (search_rows_white (reset_en_passant pos WHITE)) (INT_MIN, alpha))
               else
                 map_option fst
                   (min_rows (\<lambda>c a b. adv_minimax d c True a b) alpha
                      (rows_black (reset_en_passant pos BLACK)) (INT_MAX, beta))))"

text \<open>
  The unpruned minimax over the same tree, in the words of the specification: every
  candidate of every node is searched, a maximising node takes the greatest value of
  its children and a minimising node the least, starting from the same \<open>INT_MIN\<close> and
  \<open>INT_MAX\<close>.
\<close>

fun best_of :: "(int \<Rightarrow> int \<Rightarrow> int) \<Rightarrow> (board_state \<Rightarrow> int option) \<Rightarrow> cand list \<Rightarrow> int \<Rightarrow> int option" where
  "best_of pick val [] acc = Some acc"
| "best_of pick val (c # cs) acc =
     (case val (snd c) of None \<Rightarrow> None | Some v \<Rightarrow> best_of pick val cs (pick acc v))"

primrec full_minimax :: "nat \<Rightarrow> board_state \<Rightarrow> bool \<Rightarrow> int option" where
  "full_minimax 0 pos maximizingPlayer = evaluate pos 0"
| "full_minimax (Suc d) pos maximizingPlayer =
     (case evaluate pos (int (Suc d)) of
        None \<Rightarrow> None
      | Some sc \<Rightarrow>
          (case game_is_over pos of
             None \<Rightarrow> None
           | Some True \<Rightarrow> Some sc
           | Some False \<Rightarrow>
               if maximizingPlayer then
                 (case items_cands (concat (search_rows_white (reset_en_passant pos WHITE))) of
                    None \<Rightarrow> None
                  | Some cs \<Rightarrow> best_of max (\<lambda>c. full_minimax d c False) cs INT_MIN)
               else
                 (case items_cands (concat (rows_black (reset_en_passant pos BLACK))) of
                    None \<Rightarrow> None
                  | Some cs \<Rightarrow> best_of min (\<lambda>c. full_minimax d c True) cs INT_MAX)))"

section \<open>Move selection at the root (engine.cpp)\<close>

text \<open>
  \<open>EngineMove\<close>.  The source stores \<open>eval = (float)score / 100\<close>; the model keeps the
  score in hundredths of a pawn, as an \<open>int\<close>.  The conversion is monotone, and one-to-one
  on scores below \<open>10^7\<close> in absolute value; \<open>-0.5f\<close> is the value of the score -50.  The
  node count is not modelled.
\<close>

record EngineMove =
  em_notation :: string
  em_from_i :: int
  em_from_j :: int
  em_to_i :: int
  em_to_j :: int
  em_eval :: int

text \<open>The reference configuration: \<open>const int DEPTH = 4\<close>.  The routines below take the
  member \<open>DEPTH\<close> of the engine object as their first argument.\<close>

definition DEPTH_reference :: nat where
  "DEPTH_reference = 4"

text \<open>The root loop of \<open>make_white_move\<close> and \<open>make_black_move\<close>: each candidate is
  searched with a fresh full window, and replaces the best one when its score is
  strictly better.\<close>

fun root_scan ::
    "(int \<Rightarrow> int \<Rightarrow> bool) \<Rightarrow> (board_state \<Rightarrow> int option) \<Rightarrow> cand list \<Rightarrow> int \<times> cand option
      \<Rightarrow> (int \<times> cand option) option" where
  "root_scan better srch [] st = Some st"
| "root_scan better srch (c # cs) st =
     (case srch (snd c) of
        None \<Rightarrow> None
      | Some sc \<Rightarrow> root_scan better srch cs (if better sc (fst st) then (sc, Some c) else st))"

text \<open>The end of both routines: the notation is generated on the object's copy of the
  position as it was on entry, from the coordinates of the best move (-1 each when no
  move was found), and the caller's position becomes \<open>best_position\<close>, which is
  uninitialised when no move was found.\<close>

definition root_result :: "board_state \<Rightarrow> side \<Rightarrow> int \<times> cand option \<Rightarrow> (EngineMove \<times> board_state) option" where
  "root_result entry s st =
     (let best_score = fst st;
          coords = (case snd st of None \<Rightarrow> (- 1, - 1, - 1, - 1) | Some c \<Rightarrow> fst c)
      in case coords of (from_i, from_j, to_i, to_j) \<Rightarrow>
        (case generate_move_notation entry from_i from_j to_i to_j s of
           None \<Rightarrow> None
         | Some computer_move_notation \<Rightarrow>
             (case snd st of
                None \<Rightarrow> None
              | Some c \<Rightarrow>
                  Some (\<lparr>em_notation = computer_move_notation, em_from_i = from_i, em_from_j = from_j,
                          em_to_i = to_i, em_to_j = to_j, em_eval = best_score\<rparr>, snd c))))"

text \<open>The loops of \<open>make_white_move\<close> and \<open>make_black_move\<close>: the best score and the best
  candidate when the loops end.  With \<open>DEPTH = 0\<close> the source would pass the depth -1,
  which never reaches 0.\<close>

definition root_search_white :: "nat \<Rightarrow> board_state \<Rightarrow> (int \<times> cand option) option" where
  "root_search_white DEPTH pos =
     (if DEPTH = 0 then None
      else
        (case items_cands (concat (root_rows_white (reset_en_passant pos WHITE))) of
           None \<Rightarrow> None
         | Some cs \<Rightarrow>
             root_scan (\<lambda>sc best. sc > best)
               (\<lambda>c. adv_minimax (DEPTH - 1) c False INT_MIN INT_MAX) cs (INT_MIN, None)))"

definition root_search_black :: "nat \<Rightarrow> board_state \<Rightarrow> (int \<times> cand option) option" where
  "root_search_black DEPTH pos =
     (if DEPTH = 0 then None
      else
        (case items_cands (concat (rows_black (reset_en_passant pos BLACK))) of
           None \<Rightarrow> None
         | Some cs \<Rightarrow>
             root_scan (\<lambda>sc best. sc < best)
               (\<lambda>c. adv_minimax (DEPTH - 1) c True INT_MIN INT_MAX) cs (INT_MAX, None)))"

definition make_white_move :: "nat \<Rightarrow> board_state \<Rightarrow> (EngineMove \<times> board_state) option" where
  "make_white_move DEPTH pos =
     (case root_search_white DEPTH pos of None \<Rightarrow> None | Some st \<Rightarrow> root_result pos WHITE st)"

definition make_black_move :: "nat \<Rightarrow> board_state \<Rightarrow> (EngineMove \<times> board_state) option" where
  "make_black_move DEPTH pos =
     (case root_search_black DEPTH pos of None \<Rightarrow> None | Some st \<Rightarrow> root_result pos BLACK st)"

text \<open>The unpruned best score at the root, in the words of the specification: the
  greatest (for black the least) full-minimax value of the root candidates.\<close>

definition full_best_white :: "nat \<Rightarrow> board_state \<Rightarrow> int option" where
  "full_best_white DEPTH pos =
     (if DEPTH = 0 then None
      else
        (case items_cands (concat (root_rows_white (reset_en_passant pos WHITE))) of
           None \<Rightarrow> None
         | Some cs \<Rightarrow> best_of max (\<lambda>c. full_minimax (DEPTH - 1) c False) cs INT_MIN))"

definition full_best_black :: "nat \<Rightarrow> board_state \<Rightarrow> int option" where
  "full_best_black DEPTH pos =
     (if DEPTH = 0 then None
      else
        (case items_cands (concat (rows_black (reset_en_passant pos BLACK))) of
           None \<Rightarrow> None
         | Some cs \<Rightarrow> best_of min (\<lambda>c. full_minimax (DEPTH - 1) c True) cs INT_MAX))"








section \<open>Concrete positions\<close>

definition empty_row :: "int list" where
  "empty_row = [0, 0, 0, 0, 0, 0, 0, 0]"

definition no_flags :: "bool list" where
  "no_flags = [False, False, False, False, False, False, False, False]"

definition bare :: "int list list \<Rightarrow> board_state" where
  "bare b = \<lparr>board = b, pawn_two_squares_black = no_flags, pawn_two_squares_white = no_flags,
              can_castle_white = [False, False], can_castle_black = [False, False]\<rparr>"

text \<open>Black king a8, white queen c7, white king h1: black is not in check and has no move.\<close>

definition queen_stalemate :: board_state where
  "queen_stalemate = bare
     [[-6, 0, 0, 0, 0, 0, 0, 0],
      [ 0, 0, 5, 0, 0, 0, 0, 0],
      empty_row, empty_row, empty_row, empty_row, empty_row,
      [ 0, 0, 0, 0, 0, 0, 0, 6]]"

text \<open>Black king h8, black bishop g8 pinned by the white rook a8, white king g6:
  black is not in check, the king has no square, and each bishop move uncovers the rook.\<close>

definition pinned_bishop :: board_state where
  "pinned_bishop = bare
     [[ 4, 0, 0, 0, 0, 0, -3, -6],
      empty_row,
      [ 0, 0, 0, 0, 0, 0, 6, 0],
      empty_row, empty_row, empty_row, empty_row, empty_row]"

text \<open>White king e1, white rook e2 pinned by the black rook e8; black king h8.\<close>

definition pinned_rook :: board_state where
  "pinned_rook = bare
     [[ 0, 0, 0, 0, -4, 0, 0, -6],
      empty_row, empty_row, empty_row, empty_row, empty_row,
      [ 0, 0, 0, 0, 4, 0, 0, 0],
      [ 0, 0, 0, 0, 6, 0, 0, 0]]"

definition on_position :: "board_state \<Rightarrow> Board" where
  "on_position p = \<lparr>position = p, en_passant_index = - 1, promote_pawn = False\<rparr>"

text \<open>A white pawn on a8 (row 0), white king e1, black king e8.\<close>

definition far_pawn :: board_state where
  "far_pawn = bare
     [[ 1, 0, 0, 0, -6, 0, 0, 0],
      empty_row, empty_row, empty_row, empty_row, empty_row, empty_row,
      [ 0, 0, 0, 0, 6, 0, 0, 0]]"

text \<open>A white king on e1 and nothing else: black has no king and no move.\<close>

definition no_black :: board_state where
  "no_black = bare
     [empty_row, empty_row, empty_row, empty_row, empty_row, empty_row, empty_row,
      [ 0, 0, 0, 0, 6, 0, 0, 0]]"

text \<open>White king e1 in check from the black rook e8, white rook a1, both white castling
  flags set; black king h8.\<close>

definition castle_in_check :: board_state where
  "castle_in_check =
     \<lparr>board =
        [[ 0, 0, 0, 0, -4, 0, 0, -6],
         empty_row, empty_row, empty_row, empty_row, empty_row, empty_row,
         [ 4, 0, 0, 0, 6, 0, 0, 0]],
      pawn_two_squares_black = no_flags, pawn_two_squares_white = no_flags,
      can_castle_white = [True, True], can_castle_black = [False, False]\<rparr>"

text \<open>White king e1 and rook h1 with both castling flags set, a black bishop on d5 with the
  diagonal to h1 open, black king e8.\<close>

definition corner_capture :: board_state where
  "corner_capture =
     \<lparr>board =
        [[ 0, 0, 0, 0, -6, 0, 0, 0],
         empty_row, empty_row,
         [ 0, 0, 0, -3, 0, 0, 0, 0],
         empty_row, empty_row, empty_row,
         [ 0, 0, 0, 0, 6, 0, 0, 4]],
      pawn_two_squares_black = no_flags, pawn_two_squares_white = no_flags,
      can_castle_white = [True, True], can_castle_black = [False, False]\<rparr>"

text \<open>Kings and rooks on their home squares, all four castling flags set.\<close>

definition castle_ready :: board_state where
  "castle_ready =
     \<lparr>board =
        [[-4, 0, 0, 0, -6, 0, 0, -4],
         empty_row, empty_row, empty_row, empty_row, empty_row, empty_row,
         [ 4, 0, 0, 0, 6, 0, 0, 4]],
      pawn_two_squares_black = no_flags, pawn_two_squares_white = no_flags,
      can_castle_white = [True, True], can_castle_black = [True, True]\<rparr>"




text \<open>White king a1 and black king h8, with all four castling flags set.\<close>

definition kings_with_rights :: board_state where
  "kings_with_rights =
     \<lparr>board =
        [[ 0, 0, 0, 0, 0, 0, 0, -6],
         empty_row, empty_row, empty_row, empty_row, empty_row, empty_row,
         [ 6, 0, 0, 0, 0, 0, 0, 0]],
      pawn_two_squares_black = no_flags, pawn_two_squares_white = no_flags,
      can_castle_white = [True, True], can_castle_black = [True, True]\<rparr>"

section \<open>Notions for the search proofs\<close>

text \<open>A score that fits a C++ \<open>int\<close>.\<close>

definition in_int :: "int \<Rightarrow> bool" where
  "in_int x = (INT_MIN \<le> x \<and> x \<le> INT_MAX)"

text \<open>What a search with the window \<open>(a, b)\<close> may return for a node of value \<open>v\<close>: below
  the window it stays below, above it stays above, inside it is exact.  An empty
  window promises nothing.\<close>

definition sound :: "int \<Rightarrow> int \<Rightarrow> int \<Rightarrow> int \<Rightarrow> bool" where
  "sound a b v r = (a < b \<longrightarrow> (v \<le> a \<longrightarrow> r \<le> a) \<and> (b \<le> v \<longrightarrow> b \<le> r) \<and> (a < v \<and> v < b \<longrightarrow> r = v))"

text \<open>The loop invariants: \<open>W\<close> is the best value of the candidates passed so far
  (searched or skipped), \<open>sc\<close> the running score.\<close>

definition max_inv :: "int \<Rightarrow> int \<Rightarrow> int \<Rightarrow> int \<Rightarrow> bool" where
  "max_inv a b W sc =
     (a < b \<longrightarrow> (b \<le> sc \<and> b \<le> W) \<or> (sc < b \<and> W < b \<and> (W \<le> a \<longrightarrow> sc \<le> a) \<and> (a < W \<longrightarrow> sc = W)))"

definition min_inv :: "int \<Rightarrow> int \<Rightarrow> int \<Rightarrow> int \<Rightarrow> bool" where
  "min_inv a b W sc =
     (a < b \<longrightarrow> (sc \<le> a \<and> W \<le> a) \<or> (a < sc \<and> a < W \<and> (b \<le> W \<longrightarrow> b \<le> sc) \<and> (W < b \<longrightarrow> sc = W)))"

text \<open>The recursive call \<open>rec\<close> agrees with the value function \<open>val\<close> on a candidate.\<close>

definition agrees ::
    "(board_state \<Rightarrow> int \<Rightarrow> int \<Rightarrow> int option) \<Rightarrow> (board_state \<Rightarrow> int option) \<Rightarrow> cand \<Rightarrow> bool" where
  "agrees rec val c =
     (\<forall>v. val (snd c) = Some v \<longrightarrow>
        in_int v \<and> (\<forall>a b. in_int a \<and> in_int b \<longrightarrow>
                      (\<exists>r. rec (snd c) a b = Some r \<and> in_int r \<and> sound a b v r)))"

text \<open>No castling flag is false in \<open>p\<close> and true in \<open>p'\<close>.\<close>

definition castling_not_regained :: "board_state \<Rightarrow> board_state \<Rightarrow> bool" where
  "castling_not_regained p p' =
     list_all (\<lambda>k. (flag (can_castle_white p') k \<longrightarrow> flag (can_castle_white p) k)
                  \<and> (flag (can_castle_black p') k \<longrightarrow> flag (can_castle_black p) k)) [0, 1]"



section \<open>Notions for the flags of a generated move\<close>

text \<open>The candidates of one item of a move list.\<close>

definition item_cands :: "item \<Rightarrow> cand list" where
  "item_cands it = (case it of Single c \<Rightarrow> [c] | Group cs \<Rightarrow> cs | Crash \<Rightarrow> [])"

text \<open>The castling flags and the en-passant flags of side \<open>s\<close>.\<close>

definition castle_flags :: "side \<Rightarrow> board_state \<Rightarrow> bool list" where
  "castle_flags s p = (if s = WHITE then can_castle_white p else can_castle_black p)"

definition two_squares_flags :: "side \<Rightarrow> board_state \<Rightarrow> bool list" where
  "two_squares_flags s p = (if s = WHITE then pawn_two_squares_white p else pawn_two_squares_black p)"

text \<open>What a candidate \<open>c\<close> generated for side \<open>s\<close> in the position \<open>p\<close> does to the flags: the
  opponent's flags stay; a king move clears both castling flags of the mover, a rook move
  off a corner of the back rank clears the flag of that corner; a two-square advance
  sets the mover's en-passant flag of its file.\<close>

definition cand_flags :: "side \<Rightarrow> board_state \<Rightarrow> cand \<Rightarrow> bool" where
  "cand_flags s p c =
     (case c of ((m, n, ti, tj), pp) \<Rightarrow>
        on_board m n
      \<and> castle_flags (opponent_of s) pp = castle_flags (opponent_of s) p
      \<and> two_squares_flags (opponent_of s) pp = two_squares_flags (opponent_of s) p
      \<and> castle_flags s pp =
          (if at (board p) m n = king_of s then no_castling (castle_flags s p)
           else if at (board p) m n = rook_of s \<and> m = back_rank s \<and> n = 0
             then set_flag (castle_flags s p) 0 False
           else if at (board p) m n = rook_of s \<and> m = back_rank s \<and> n = 7
             then set_flag (castle_flags s p) 1 False
           else castle_flags s p)
      \<and> two_squares_flags s pp =
          (if at (board p) m n = pawn_of s \<and> ti = m + 2 * (if s = WHITE then - 1 else 1)
           then set_flag (two_squares_flags s p) n True
           else two_squares_flags s p))"

section \<open>The validated entry points\<close>

lemma pawn_move_position: "position (snd (pawn_move B a b c d)) = position B"
  by (simp add: pawn_move_def Let_def)

lemma white_switch_position: "position (snd (snd (white_switch B a b c d))) = position B"
  using pawn_move_position[of B a b c d]
  by (auto simp: white_switch_def Let_def split: prod.splits bool.splits)

text \<open>
  C4.  A move that passes the validation of its piece (the switch of the handler says
  \<open>move_is_legal\<close>) and whose tentative position has the mover's king in check is
  rejected.  \<open>handle_white_move\<close> returns the empty string and leaves the position as it
  was.  \<open>is_black_move_legal\<close> returns false and leaves the position as it was, and
  \<open>Human::handle_black_move\<close>, which generates the notation of the attempted move before
  any test, returns the empty string and the unchanged position whenever that
  generation stays inside the board.
\<close>

theorem self_check_is_rejected:
  "(fst (white_switch (entered B) si sj ti tj)
      \<and> king_is_in_check (board (fst (snd (white_switch (entered B) si sj ti tj)))) WHITE
    \<longrightarrow> map_option (\<lambda>r. (fst r, position (snd r))) (handle_white_move cb B si sj ti tj)
          = Some ([], position B))
   \<and> (fst (black_switch pos fx fy tx ty)
      \<and> king_is_in_check (board (fst (snd (black_switch pos fx fy tx ty)))) BLACK
    \<longrightarrow> fst (is_black_move_legal pos fx fy tx ty) = False
        \<and> fst (snd (is_black_move_legal pos fx fy tx ty)) = pos
        \<and> (generate_move_notation pos fx fy tx ty BLACK \<noteq> None
            \<longrightarrow> handle_black_move cb' pos fx fy tx ty = Some ([], pos)))"
proof (intro conjI impI)
  assume h: "fst (white_switch (entered B) si sj ti tj)
      \<and> king_is_in_check (board (fst (snd (white_switch (entered B) si sj ti tj)))) WHITE"
  obtain l pp B' where w: "white_switch (entered B) si sj ti tj = (l, pp, B')"
    by (cases "white_switch (entered B) si sj ti tj") auto
  have "position B' = position (entered B)"
    using white_switch_position[of "entered B" si sj ti tj] w by simp
  then have "position B' = position B" by (simp add: entered_def)
  then show "map_option (\<lambda>r. (fst r, position (snd r))) (handle_white_move cb B si sj ti tj)
          = Some ([], position B)"
    using h w by (simp add: handle_white_move_def entered_def Let_def)
next
  assume h: "fst (black_switch pos fx fy tx ty)
      \<and> king_is_in_check (board (fst (snd (black_switch pos fx fy tx ty)))) BLACK"
  obtain l pp e where w: "black_switch pos fx fy tx ty = (l, pp, e)"
    by (cases "black_switch pos fx fy tx ty") auto
  have il: "is_black_move_legal pos fx fy tx ty = (False, pos, pp)"
    using h w by (simp add: is_black_move_legal_def)
  show "fst (is_black_move_legal pos fx fy tx ty) = False" using il by simp
  show "fst (snd (is_black_move_legal pos fx fy tx ty)) = pos" using il by simp
  assume "generate_move_notation pos fx fy tx ty BLACK \<noteq> None"
  then show "handle_black_move cb' pos fx fy tx ty = Some ([], pos)"
    using il by (auto simp: handle_black_move_def split: option.splits)
qed

section \<open>Alpha-beta pruning against full minimax\<close>

text \<open>
  The proof follows the loops of \<open>adv_minimax\<close>.  While the window is open the running
  score is exact inside the window and on the right side of it outside; once
  \<open>beta <= alpha\<close> the score is at or beyond the bound and stays there, whatever the
  remaining searches (made with an empty window, or skipped by a \<open>break\<close>) return.
\<close>

lemma in_int_max: "in_int x \<Longrightarrow> in_int y \<Longrightarrow> in_int (max x y)"
  by (simp add: in_int_def max_def)

lemma in_int_min: "in_int x \<Longrightarrow> in_int y \<Longrightarrow> in_int (min x y)"
  by (simp add: in_int_def min_def)

lemma max_inv_step:
  assumes "max_inv a b W sc" and "sound (max a sc) b v r"
  shows "max_inv a b (max W v) (max sc r)"
  using assms unfolding max_inv_def sound_def by (smt (verit) max_def)

lemma min_inv_step:
  assumes "min_inv a b W sc" and "sound a (min b sc) v r"
  shows "min_inv a b (min W v) (min sc r)"
  using assms unfolding min_inv_def sound_def by (smt (verit) min_def)

lemma max_inv_cut: "max_inv a b W sc \<Longrightarrow> b \<le> max a sc \<Longrightarrow> W \<le> W' \<Longrightarrow> max_inv a b W' sc"
  unfolding max_inv_def by (smt (verit) max_def)

lemma min_inv_cut: "min_inv a b W sc \<Longrightarrow> min b sc \<le> a \<Longrightarrow> W' \<le> W \<Longrightarrow> min_inv a b W' sc"
  unfolding min_inv_def by (smt (verit) min_def)

lemma max_inv_sound: "max_inv a b v r \<Longrightarrow> sound a b v r"
  unfolding max_inv_def sound_def by (smt (verit))

lemma min_inv_sound: "min_inv a b v r \<Longrightarrow> sound a b v r"
  unfolding min_inv_def sound_def by (smt (verit))

lemma max_inv_init: "in_int a \<Longrightarrow> max_inv a b INT_MIN INT_MIN"
  unfolding max_inv_def in_int_def by (smt (verit))

lemma min_inv_init: "in_int b \<Longrightarrow> min_inv a b INT_MAX INT_MAX"
  unfolding min_inv_def in_int_def by (smt (verit))

lemma best_of_append:
  "best_of pick val (xs @ ys) acc =
     (case best_of pick val xs acc of None \<Rightarrow> None | Some a \<Rightarrow> best_of pick val ys a)"
  by (induction xs arbitrary: acc) (auto split: option.splits)

lemma best_of_max_mono: "best_of max val cs W = Some W' \<Longrightarrow> W \<le> W'"
proof (induction cs arbitrary: W)
  case Nil
  then show ?case by simp
next
  case (Cons c cs)
  then obtain v where v: "val (snd c) = Some v" and r: "best_of max val cs (max W v) = Some W'"
    by (auto split: option.splits)
  from Cons.IH[OF r] show ?case by simp
qed

lemma best_of_min_mono: "best_of min val cs W = Some W' \<Longrightarrow> W' \<le> W"
proof (induction cs arbitrary: W)
  case Nil
  then show ?case by simp
next
  case (Cons c cs)
  then obtain v where v: "val (snd c) = Some v" and r: "best_of min val cs (min W v) = Some W'"
    by (auto split: option.splits)
  from Cons.IH[OF r] show ?case by simp
qed

lemma best_of_in_int:
  assumes "best_of pick val cs W = Some W'" and "in_int W"
    and "\<forall>c\<in>set cs. \<forall>v. val (snd c) = Some v \<longrightarrow> in_int v"
    and "\<And>x y. in_int x \<Longrightarrow> in_int y \<Longrightarrow> in_int (pick x y)"
  shows "in_int W'"
  using assms(1,2,3)
proof (induction cs arbitrary: W)
  case Nil
  then show ?case by simp
next
  case (Cons c cs)
  then obtain v where v: "val (snd c) = Some v" and r: "best_of pick val cs (pick W v) = Some W'"
    by (auto split: option.splits)
  have "in_int v" using Cons.prems(3) v by simp
  then have "in_int (pick W v)" using assms(4) Cons.prems(2) by simp
  then show ?case using Cons.IH[OF r] Cons.prems(3) by simp
qed

lemma items_cands_append:
  "items_cands (r @ rs) =
     (case items_cands r of None \<Rightarrow> None
      | Some c1 \<Rightarrow> (case items_cands rs of None \<Rightarrow> None | Some c2 \<Rightarrow> Some (c1 @ c2)))"
proof (induction r)
  case Nil
  show ?case by (simp split: option.splits)
next
  case (Cons i r)
  then show ?case
    by (cases i) (auto split: option.splits)
qed

lemma max_child_step:
  assumes ag: "agrees rec val c" and v: "val (snd c) = Some v"
    and inv: "max_inv a b W sc" and ra: "in_int a" and rb: "in_int b" and rs: "in_int sc"
  shows "\<exists>sc'. max_child rec b c (sc, max a sc) = Some ((sc', max a sc'), b \<le> max a sc')
           \<and> max_inv a b (max W v) sc' \<and> in_int sc'"
proof -
  have "in_int (max a sc)" using ra rs by (rule in_int_max)
  then obtain r where r: "rec (snd c) (max a sc) b = Some r" and rr: "in_int r"
      and so: "sound (max a sc) b v r"
    using ag v rb unfolding agrees_def by blast
  have e: "max (max a sc) (max sc r) = max a (max sc r)" by simp
  have "max_child rec b c (sc, max a sc) = Some ((max sc r, max a (max sc r)), b \<le> max a (max sc r))"
    using r e by (simp add: max_child_def Let_def)
  moreover have "max_inv a b (max W v) (max sc r)" using inv so by (rule max_inv_step)
  moreover have "in_int (max sc r)" using rs rr by (rule in_int_max)
  ultimately show ?thesis by blast
qed

lemma max_group_ok:
  assumes "best_of max val cs W = Some W'" and "\<forall>c\<in>set cs. agrees rec val c"
    and "max_inv a b W sc" and ra: "in_int a" and rb: "in_int b" and "in_int sc"
  shows "\<exists>sc'. max_group rec b cs (sc, max a sc) = Some (sc', max a sc')
           \<and> max_inv a b W' sc' \<and> in_int sc'"
  using assms(1,2,3,6)
proof (induction cs arbitrary: W sc)
  case Nil
  then show ?case by simp
next
  case (Cons c cs)
  from Cons.prems(1) obtain v where v: "val (snd c) = Some v"
      and rest: "best_of max val cs (max W v) = Some W'"
    by (auto split: option.splits)
  have ag: "agrees rec val c" using Cons.prems(2) by simp
  from max_child_step[OF ag v Cons.prems(3) ra rb Cons.prems(4)]
  obtain sc1 where st: "max_child rec b c (sc, max a sc) = Some ((sc1, max a sc1), b \<le> max a sc1)"
      and inv1: "max_inv a b (max W v) sc1" and r1: "in_int sc1"
    by blast
  show ?case
  proof (cases "b \<le> max a sc1")
    case True
    have "max_inv a b W' sc1"
      using inv1 True best_of_max_mono[OF rest] by (rule max_inv_cut)
    then show ?thesis using st True r1 by simp
  next
    case False
    from Cons.IH[OF rest _ inv1 r1] Cons.prems(2)
    obtain sc' where "max_group rec b cs (sc1, max a sc1) = Some (sc', max a sc')"
        and "max_inv a b W' sc'" and "in_int sc'"
      by auto
    then show ?thesis using st False by simp
  qed
qed

lemma max_row_ok:
  assumes "items_cands r = Some cs" and "best_of max val cs W = Some W'"
    and "\<forall>c\<in>set cs. agrees rec val c"
    and "max_inv a b W sc" and ra: "in_int a" and rb: "in_int b" and "in_int sc"
  shows "\<exists>sc'. max_row rec b r (sc, max a sc) = Some (sc', max a sc')
           \<and> max_inv a b W' sc' \<and> in_int sc'"
  using assms(1,2,3,4,7)
proof (induction r arbitrary: cs W sc)
  case Nil
  then show ?case by simp
next
  case (Cons i r)
  show ?case
  proof (cases i)
    case Crash
    then show ?thesis using Cons.prems(1) by simp
  next
    case (Single c)
    from Cons.prems(1) Single obtain cs1 where cs1: "items_cands r = Some cs1" and cs: "cs = c # cs1"
      by auto
    from Cons.prems(2) cs obtain v where v: "val (snd c) = Some v"
        and rest: "best_of max val cs1 (max W v) = Some W'"
      by (auto split: option.splits)
    have ag: "agrees rec val c" using Cons.prems(3) cs by simp
    from max_child_step[OF ag v Cons.prems(4) ra rb Cons.prems(5)]
    obtain sc1 where st: "max_child rec b c (sc, max a sc) = Some ((sc1, max a sc1), b \<le> max a sc1)"
        and inv1: "max_inv a b (max W v) sc1" and r1: "in_int sc1"
      by blast
    show ?thesis
    proof (cases "b \<le> max a sc1")
      case True
      have "max_inv a b W' sc1"
        using inv1 True best_of_max_mono[OF rest] by (rule max_inv_cut)
      then show ?thesis using st True r1 Single by simp
    next
      case False
      have "\<forall>c\<in>set cs1. agrees rec val c" using Cons.prems(3) cs by simp
      from Cons.IH[OF cs1 rest this inv1 r1]
      obtain sc' where "max_row rec b r (sc1, max a sc1) = Some (sc', max a sc')"
          and "max_inv a b W' sc'" and "in_int sc'"
        by auto
      then show ?thesis using st False Single by simp
    qed
  next
    case (Group g)
    from Cons.prems(1) Group obtain cs1 where cs1: "items_cands r = Some cs1" and cs: "cs = g @ cs1"
      by auto
    from Cons.prems(2) cs obtain W1 where g: "best_of max val g W = Some W1"
        and rest: "best_of max val cs1 W1 = Some W'"
      by (auto simp: best_of_append split: option.splits)
    have agg: "\<forall>c\<in>set g. agrees rec val c" using Cons.prems(3) cs by simp
    from max_group_ok[OF g agg Cons.prems(4) ra rb Cons.prems(5)]
    obtain sc1 where st: "max_group rec b g (sc, max a sc) = Some (sc1, max a sc1)"
        and inv1: "max_inv a b W1 sc1" and r1: "in_int sc1"
      by blast
    have "\<forall>c\<in>set cs1. agrees rec val c" using Cons.prems(3) cs by simp
    from Cons.IH[OF cs1 rest this inv1 r1]
    obtain sc' where "max_row rec b r (sc1, max a sc1) = Some (sc', max a sc')"
        and "max_inv a b W' sc'" and "in_int sc'"
      by auto
    then show ?thesis using st Group by simp
  qed
qed

lemma max_rows_ok:
  assumes "items_cands (concat rows) = Some cs" and "best_of max val cs W = Some W'"
    and "\<forall>c\<in>set cs. agrees rec val c"
    and "max_inv a b W sc" and ra: "in_int a" and rb: "in_int b" and "in_int sc"
  shows "\<exists>sc'. max_rows rec b rows (sc, max a sc) = Some (sc', max a sc')
           \<and> max_inv a b W' sc' \<and> in_int sc'"
  using assms(1,2,3,4,7)
proof (induction rows arbitrary: cs W sc)
  case Nil
  then show ?case by (simp add: max_rows_def)
next
  case (Cons r rows)
  from Cons.prems(1) obtain c1 c2 where c1: "items_cands r = Some c1"
      and c2: "items_cands (concat rows) = Some c2" and cs: "cs = c1 @ c2"
    by (auto simp: items_cands_append split: option.splits)
  from Cons.prems(2) cs obtain W1 where g: "best_of max val c1 W = Some W1"
      and rest: "best_of max val c2 W1 = Some W'"
    by (auto simp: best_of_append split: option.splits)
  have ag1: "\<forall>c\<in>set c1. agrees rec val c" using Cons.prems(3) cs by simp
  from max_row_ok[OF c1 g ag1 Cons.prems(4) ra rb Cons.prems(5)]
  obtain sc1 where st: "max_row rec b r (sc, max a sc) = Some (sc1, max a sc1)"
      and inv1: "max_inv a b W1 sc1" and r1: "in_int sc1"
    by blast
  have "\<forall>c\<in>set c2. agrees rec val c" using Cons.prems(3) cs by simp
  from Cons.IH[OF c2 rest this inv1 r1]
  obtain sc' where "max_rows rec b rows (sc1, max a sc1) = Some (sc', max a sc')"
      and "max_inv a b W' sc'" and "in_int sc'"
    by auto
  then show ?case using st by (simp add: max_rows_def)
qed


lemma min_child_step:
  assumes ag: "agrees rec val c" and v: "val (snd c) = Some v"
    and inv: "min_inv a b W sc" and ra: "in_int a" and rb: "in_int b" and rs: "in_int sc"
  shows "\<exists>sc'. min_child rec a c (sc, min b sc) = Some ((sc', min b sc'), min b sc' \<le> a)
           \<and> min_inv a b (min W v) sc' \<and> in_int sc'"
proof -
  have "in_int (min b sc)" using rb rs by (rule in_int_min)
  then obtain r where r: "rec (snd c) a (min b sc) = Some r" and rr: "in_int r"
      and so: "sound a (min b sc) v r"
    using ag v ra unfolding agrees_def by blast
  have e: "min (min b sc) (min sc r) = min b (min sc r)" by simp
  have "min_child rec a c (sc, min b sc) = Some ((min sc r, min b (min sc r)), min b (min sc r) \<le> a)"
    using r e by (simp add: min_child_def Let_def)
  moreover have "min_inv a b (min W v) (min sc r)" using inv so by (rule min_inv_step)
  moreover have "in_int (min sc r)" using rs rr by (rule in_int_min)
  ultimately show ?thesis by blast
qed

lemma min_group_ok:
  assumes "best_of min val cs W = Some W'" and "\<forall>c\<in>set cs. agrees rec val c"
    and "min_inv a b W sc" and ra: "in_int a" and rb: "in_int b" and "in_int sc"
  shows "\<exists>sc'. min_group rec a cs (sc, min b sc) = Some (sc', min b sc')
           \<and> min_inv a b W' sc' \<and> in_int sc'"
  using assms(1,2,3,6)
proof (induction cs arbitrary: W sc)
  case Nil
  then show ?case by simp
next
  case (Cons c cs)
  from Cons.prems(1) obtain v where v: "val (snd c) = Some v"
      and rest: "best_of min val cs (min W v) = Some W'"
    by (auto split: option.splits)
  have ag: "agrees rec val c" using Cons.prems(2) by simp
  from min_child_step[OF ag v Cons.prems(3) ra rb Cons.prems(4)]
  obtain sc1 where st: "min_child rec a c (sc, min b sc) = Some ((sc1, min b sc1), min b sc1 \<le> a)"
      and inv1: "min_inv a b (min W v) sc1" and r1: "in_int sc1"
    by blast
  show ?case
  proof (cases "min b sc1 \<le> a")
    case True
    have "min_inv a b W' sc1"
      using inv1 True best_of_min_mono[OF rest] by (rule min_inv_cut)
    then show ?thesis using st True r1 by simp
  next
    case False
    from Cons.IH[OF rest _ inv1 r1] Cons.prems(2)
    obtain sc' where "min_group rec a cs (sc1, min b sc1) = Some (sc', min b sc')"
        and "min_inv a b W' sc'" and "in_int sc'"
      by auto
    then show ?thesis using st False by simp
  qed
qed

lemma min_row_ok:
  assumes "items_cands r = Some cs" and "best_of min val cs W = Some W'"
    and "\<forall>c\<in>set cs. agrees rec val c"
    and "min_inv a b W sc" and ra: "in_int a" and rb: "in_int b" and "in_int sc"
  shows "\<exists>sc'. min_row rec a r (sc, min b sc) = Some (sc', min b sc')
           \<and> min_inv a b W' sc' \<and> in_int sc'"
  using assms(1,2,3,4,7)
proof (induction r arbitrary: cs W sc)
  case Nil
  then show ?case by simp
next
  case (Cons i r)
  show ?case
  proof (cases i)
    case Crash
    then show ?thesis using Cons.prems(1) by simp
  next
    case (Single c)
    from Cons.prems(1) Single obtain cs1 where cs1: "items_cands r = Some cs1" and cs: "cs = c # cs1"
      by auto
    from Cons.prems(2) cs obtain v where v: "val (snd c) = Some v"
        and rest: "best_of min val cs1 (min W v) = Some W'"
      by (auto split: option.splits)
    have ag: "agrees rec val c" using Cons.prems(3) cs by simp
    from min_child_step[OF ag v Cons.prems(4) ra rb Cons.prems(5)]
    obtain sc1 where st: "min_child rec a c (sc, min b sc) = Some ((sc1, min b sc1), min b sc1 \<le> a)"
        and inv1: "min_inv a b (min W v) sc1" and r1: "in_int sc1"
      by blast
    show ?thesis
    proof (cases "min b sc1 \<le> a")
      case True
      have "min_inv a b W' sc1"
        using inv1 True best_of_min_mono[OF rest] by (rule min_inv_cut)
      then show ?thesis using st True r1 Single by simp
    next
      case False
      have "\<forall>c\<in>set cs1. agrees rec val c" using Cons.prems(3) cs by simp
      from Cons.IH[OF cs1 rest this inv1 r1]
      obtain sc' where "min_row rec a r (sc1, min b sc1) = Some (sc', min b sc')"
          and "min_inv a b W' sc'" and "in_int sc'"
        by auto
      then show ?thesis using st False Single by simp
    qed
  next
    case (Group g)
    from Cons.prems(1) Group obtain cs1 where cs1: "items_cands r = Some cs1" and cs: "cs = g @ cs1"
      by auto
    from Cons.prems(2) cs obtain W1 where g: "best_of min val g W = Some W1"
        and rest: "best_of min val cs1 W1 = Some W'"
      by (auto simp: best_of_append split: option.splits)
    have agg: "\<forall>c\<in>set g. agrees rec val c" using Cons.prems(3) cs by simp
    from min_group_ok[OF g agg Cons.prems(4) ra rb Cons.prems(5)]
    obtain sc1 where st: "min_group rec a g (sc, min b sc) = Some (sc1, min b sc1)"
        and inv1: "min_inv a b W1 sc1" and r1: "in_int sc1"
      by blast
    have "\<forall>c\<in>set cs1. agrees rec val c" using Cons.prems(3) cs by simp
    from Cons.IH[OF cs1 rest this inv1 r1]
    obtain sc' where "min_row rec a r (sc1, min b sc1) = Some (sc', min b sc')"
        and "min_inv a b W' sc'" and "in_int sc'"
      by auto
    then show ?thesis using st Group by simp
  qed
qed

lemma min_rows_ok:
  assumes "items_cands (concat rows) = Some cs" and "best_of min val cs W = Some W'"
    and "\<forall>c\<in>set cs. agrees rec val c"
    and "min_inv a b W sc" and ra: "in_int a" and rb: "in_int b" and "in_int sc"
  shows "\<exists>sc'. min_rows rec a rows (sc, min b sc) = Some (sc', min b sc')
           \<and> min_inv a b W' sc' \<and> in_int sc'"
  using assms(1,2,3,4,7)
proof (induction rows arbitrary: cs W sc)
  case Nil
  then show ?case by (simp add: min_rows_def)
next
  case (Cons r rows)
  from Cons.prems(1) obtain c1 c2 where c1: "items_cands r = Some c1"
      and c2: "items_cands (concat rows) = Some c2" and cs: "cs = c1 @ c2"
    by (auto simp: items_cands_append split: option.splits)
  from Cons.prems(2) cs obtain W1 where g: "best_of min val c1 W = Some W1"
      and rest: "best_of min val c2 W1 = Some W'"
    by (auto simp: best_of_append split: option.splits)
  have ag1: "\<forall>c\<in>set c1. agrees rec val c" using Cons.prems(3) cs by simp
  from min_row_ok[OF c1 g ag1 Cons.prems(4) ra rb Cons.prems(5)]
  obtain sc1 where st: "min_row rec a r (sc, min b sc) = Some (sc1, min b sc1)"
      and inv1: "min_inv a b W1 sc1" and r1: "in_int sc1"
    by blast
  have "\<forall>c\<in>set c2. agrees rec val c" using Cons.prems(3) cs by simp
  from Cons.IH[OF c2 rest this inv1 r1]
  obtain sc' where "min_rows rec a rows (sc1, min b sc1) = Some (sc', min b sc')"
      and "min_inv a b W' sc'" and "in_int sc'"
    by auto
  then show ?case using st by (simp add: min_rows_def)
qed

lemma c_int_in_int: "c_int x = Some v \<Longrightarrow> in_int v"
  by (auto simp: c_int_def in_int_def split: if_splits)

lemma evaluate_in_int: "evaluate p d = Some v \<Longrightarrow> in_int v"
  unfolding evaluate_def
  by (auto split: option.splits bool.splits dest: c_int_in_int)

lemma in_int_bounds: "in_int INT_MIN" "in_int INT_MAX"
  by (simp_all add: in_int_def INT_MIN_def INT_MAX_def)

lemma sound_refl: "sound a b v v"
  by (simp add: sound_def)

lemma adv_minimax_agrees:
  "full_minimax d p mx = Some v \<Longrightarrow>
     in_int v \<and> (\<forall>a b. in_int a \<and> in_int b \<longrightarrow>
                   (\<exists>r. adv_minimax d p mx a b = Some r \<and> in_int r \<and> sound a b v r))"
proof (induction d arbitrary: p mx v)
  case 0
  then have "evaluate p 0 = Some v" by simp
  then show ?case using evaluate_in_int[of p 0 v] by (simp add: sound_refl)
next
  case (Suc d)
  from Suc.prems obtain sc where ev: "evaluate p (int (Suc d)) = Some sc"
    by (auto split: option.splits)
  from Suc.prems ev obtain go where go: "game_is_over p = Some go"
    by (auto split: option.splits)
  show ?case
  proof (cases go)
    case True
    then have "v = sc" using Suc.prems ev go by simp
    then show ?thesis using ev go True evaluate_in_int[OF ev] by (simp add: sound_refl)
  next
    case False
    note notover = False
    show ?thesis
    proof (cases mx)
      case True
      let ?rows = "search_rows_white (reset_en_passant p WHITE)"
      let ?rec = "\<lambda>c a b. adv_minimax d c False a b"
      let ?val = "\<lambda>c. full_minimax d c False"
      from Suc.prems ev go notover True obtain cs where cs: "items_cands (concat ?rows) = Some cs"
          and best: "best_of max ?val cs INT_MIN = Some v"
        by (auto split: option.splits)
      have ag: "\<forall>c\<in>set cs. agrees ?rec ?val c"
        unfolding agrees_def using Suc.IH by blast
      have vr: "in_int v"
      proof (rule best_of_in_int[OF best in_int_bounds(1)])
        show "\<forall>c\<in>set cs. \<forall>v. full_minimax d (snd c) False = Some v \<longrightarrow> in_int v"
          using Suc.IH by blast
        show "\<And>x y. in_int x \<Longrightarrow> in_int y \<Longrightarrow> in_int (max x y)" by (rule in_int_max)
      qed
      have "\<exists>r. adv_minimax (Suc d) p mx a b = Some r \<and> in_int r \<and> sound a b v r"
        if ab: "in_int a \<and> in_int b" for a b
      proof -
        have ra: "in_int a" and rb: "in_int b" using ab by auto
        have m: "max a INT_MIN = a" using ra by (simp add: in_int_def)
        from max_rows_ok[OF cs best ag max_inv_init[OF ra] ra rb in_int_bounds(1)]
        obtain sc' where r: "max_rows ?rec b ?rows (INT_MIN, a) = Some (sc', max a sc')"
            and inv: "max_inv a b v sc'" and rr: "in_int sc'"
          using m by auto
        have "adv_minimax (Suc d) p mx a b = Some sc'"
          using ev go notover True r by simp
        then show ?thesis using rr max_inv_sound[OF inv] by simp
      qed
      then show ?thesis using vr by blast
    next
      case False
      let ?rows = "rows_black (reset_en_passant p BLACK)"
      let ?rec = "\<lambda>c a b. adv_minimax d c True a b"
      let ?val = "\<lambda>c. full_minimax d c True"
      from Suc.prems ev go notover False obtain cs where cs: "items_cands (concat ?rows) = Some cs"
          and best: "best_of min ?val cs INT_MAX = Some v"
        by (auto split: option.splits)
      have ag: "\<forall>c\<in>set cs. agrees ?rec ?val c"
        unfolding agrees_def using Suc.IH by blast
      have vr: "in_int v"
      proof (rule best_of_in_int[OF best in_int_bounds(2)])
        show "\<forall>c\<in>set cs. \<forall>v. full_minimax d (snd c) True = Some v \<longrightarrow> in_int v"
          using Suc.IH by blast
        show "\<And>x y. in_int x \<Longrightarrow> in_int y \<Longrightarrow> in_int (min x y)" by (rule in_int_min)
      qed
      have "\<exists>r. adv_minimax (Suc d) p mx a b = Some r \<and> in_int r \<and> sound a b v r"
        if ab: "in_int a \<and> in_int b" for a b
      proof -
        have ra: "in_int a" and rb: "in_int b" using ab by auto
        have m: "min b INT_MAX = b" using rb by (simp add: in_int_def)
        from min_rows_ok[OF cs best ag min_inv_init[OF rb] ra rb in_int_bounds(2)]
        obtain sc' where r: "min_rows ?rec a ?rows (INT_MAX, b) = Some (sc', min b sc')"
            and inv: "min_inv a b v sc'" and rr: "in_int sc'"
          using m by auto
        have "adv_minimax (Suc d) p mx a b = Some sc'"
          using ev go notover False r by simp
        then show ?thesis using rr min_inv_sound[OF inv] by simp
      qed
      then show ?thesis using vr by blast
    qed
  qed
qed

lemma full_window_exact:
  assumes "in_int v" and "in_int r" and "sound INT_MIN INT_MAX v r"
  shows "r = v"
  using assms unfolding sound_def in_int_def INT_MIN_def INT_MAX_def by (smt (verit))

lemma adv_minimax_full_window:
  "full_minimax d p mx = Some v \<Longrightarrow> adv_minimax d p mx INT_MIN INT_MAX = Some v"
proof -
  assume f: "full_minimax d p mx = Some v"
  from adv_minimax_agrees[OF f] in_int_bounds
  obtain r where "adv_minimax d p mx INT_MIN INT_MAX = Some r" and "in_int r"
      and "sound INT_MIN INT_MAX v r" and "in_int v"
    by blast
  then show ?thesis using full_window_exact by blast
qed

lemma root_scan_max:
  assumes "best_of max val cs W = Some W'"
    and "\<forall>c\<in>set cs. \<forall>v. val (snd c) = Some v \<longrightarrow> srch (snd c) = Some v"
  shows "\<exists>st'. root_scan (\<lambda>sc best. sc > best) srch cs (W, b) = Some st' \<and> fst st' = W'"
  using assms
proof (induction cs arbitrary: W b)
  case Nil
  then show ?case by simp
next
  case (Cons c cs)
  from Cons.prems(1) obtain v where v: "val (snd c) = Some v"
      and rest: "best_of max val cs (max W v) = Some W'"
    by (auto split: option.splits)
  have s: "srch (snd c) = Some v" using Cons.prems(2) v by simp
  have all: "\<forall>c\<in>set cs. \<forall>v. val (snd c) = Some v \<longrightarrow> srch (snd c) = Some v"
    using Cons.prems(2) by simp
  show ?case
  proof (cases "v > W")
    case True
    then have m: "max W v = v" by simp
    from Cons.IH[OF rest[unfolded m] all, of "Some c"] show ?thesis using s True by simp
  next
    case False
    then have m: "max W v = W" by simp
    from Cons.IH[OF rest[unfolded m] all, of b] show ?thesis using s False by simp
  qed
qed

lemma root_scan_min:
  assumes "best_of min val cs W = Some W'"
    and "\<forall>c\<in>set cs. \<forall>v. val (snd c) = Some v \<longrightarrow> srch (snd c) = Some v"
  shows "\<exists>st'. root_scan (\<lambda>sc best. sc < best) srch cs (W, b) = Some st' \<and> fst st' = W'"
  using assms
proof (induction cs arbitrary: W b)
  case Nil
  then show ?case by simp
next
  case (Cons c cs)
  from Cons.prems(1) obtain v where v: "val (snd c) = Some v"
      and rest: "best_of min val cs (min W v) = Some W'"
    by (auto split: option.splits)
  have s: "srch (snd c) = Some v" using Cons.prems(2) v by simp
  have all: "\<forall>c\<in>set cs. \<forall>v. val (snd c) = Some v \<longrightarrow> srch (snd c) = Some v"
    using Cons.prems(2) by simp
  show ?case
  proof (cases "v < W")
    case True
    then have m: "min W v = v" by simp
    from Cons.IH[OF rest[unfolded m] all, of "Some c"] show ?thesis using s True by simp
  next
    case False
    then have m: "min W v = W" by simp
    from Cons.IH[OF rest[unfolded m] all, of b] show ?thesis using s False by simp
  qed
qed

lemma root_result_eval: "root_result entry s st = Some r \<Longrightarrow> em_eval (fst r) = fst st"
  by (auto simp: root_result_def Let_def split: option.splits prod.splits)

lemma root_search_white_full:
  assumes "full_best_white DEPTH pos = Some V"
  shows "map_option fst (root_search_white DEPTH pos) = Some V"
proof -
  from assms have d: "DEPTH \<noteq> 0" by (auto simp: full_best_white_def split: if_splits)
  from assms d obtain cs
    where cs: "items_cands (concat (root_rows_white (reset_en_passant pos WHITE))) = Some cs"
      and best: "best_of max (\<lambda>c. full_minimax (DEPTH - 1) c False) cs INT_MIN = Some V"
    by (auto simp: full_best_white_def split: option.splits)
  have "\<forall>c\<in>set cs. \<forall>v. full_minimax (DEPTH - 1) (snd c) False = Some v
          \<longrightarrow> adv_minimax (DEPTH - 1) (snd c) False INT_MIN INT_MAX = Some v"
    using adv_minimax_full_window by blast
  from root_scan_max[OF best this, of None] show ?thesis
    using d cs by (auto simp: root_search_white_def)
qed

lemma root_search_black_full:
  assumes "full_best_black DEPTH pos = Some V"
  shows "map_option fst (root_search_black DEPTH pos) = Some V"
proof -
  from assms have d: "DEPTH \<noteq> 0" by (auto simp: full_best_black_def split: if_splits)
  from assms d obtain cs
    where cs: "items_cands (concat (rows_black (reset_en_passant pos BLACK))) = Some cs"
      and best: "best_of min (\<lambda>c. full_minimax (DEPTH - 1) c True) cs INT_MAX = Some V"
    by (auto simp: full_best_black_def split: option.splits)
  have "\<forall>c\<in>set cs. \<forall>v. full_minimax (DEPTH - 1) (snd c) True = Some v
          \<longrightarrow> adv_minimax (DEPTH - 1) (snd c) True INT_MIN INT_MAX = Some v"
    using adv_minimax_full_window by blast
  from root_scan_min[OF best this, of None] show ?thesis
    using d cs by (auto simp: root_search_black_def)
qed

text \<open>
  C3.  Whenever the unpruned minimax of a node has the value \<open>v\<close>, \<open>adv_minimax\<close> called
  with the full window returns \<open>v\<close>, for every position, depth and side to move.  At
  the root, whenever the unpruned best score of the candidates is \<open>V\<close>, the root loop
  of \<open>make_white_move\<close> (of \<open>make_black_move\<close>) ends with \<open>best_score = V\<close>, and a move
  the routine returns carries that score.
\<close>

theorem pruned_search_equals_full_minimax:
  "(full_minimax d p mx = Some v \<longrightarrow> adv_minimax d p mx INT_MIN INT_MAX = Some v)
   \<and> (full_best_white DEPTH pos = Some V \<longrightarrow>
        map_option fst (root_search_white DEPTH pos) = Some V
        \<and> (\<forall>r. make_white_move DEPTH pos = Some r \<longrightarrow> em_eval (fst r) = V))
   \<and> (full_best_black DEPTH pos = Some V' \<longrightarrow>
        map_option fst (root_search_black DEPTH pos) = Some V'
        \<and> (\<forall>r. make_black_move DEPTH pos = Some r \<longrightarrow> em_eval (fst r) = V'))"
proof (intro conjI impI allI)
  assume "full_minimax d p mx = Some v"
  then show "adv_minimax d p mx INT_MIN INT_MAX = Some v" by (rule adv_minimax_full_window)
next
  assume f: "full_best_white DEPTH pos = Some V"
  then show w: "map_option fst (root_search_white DEPTH pos) = Some V"
    by (rule root_search_white_full)
  fix r assume "make_white_move DEPTH pos = Some r"
  then show "em_eval (fst r) = V"
    using w root_result_eval by (auto simp: make_white_move_def split: option.splits)
next
  assume f: "full_best_black DEPTH pos = Some V'"
  then show w: "map_option fst (root_search_black DEPTH pos) = Some V'"
    by (rule root_search_black_full)
  fix r assume "make_black_move DEPTH pos = Some r"
  then show "em_eval (fst r) = V'"
    using w root_result_eval by (auto simp: make_black_move_def split: option.splits)
qed

section \<open>The flags of the moves the engine generates\<close>

lemma set_legal: "c \<in> set (legal s cs) \<Longrightarrow> c \<in> set cs"
  by (simp add: legal_def)

lemma pawn_items_flags:
  assumes "at (board p) m n = pawn_of s" and "on_board m n"
    and "it \<in> set (pawn_items s promo cap_order p m n)" and "c \<in> set (item_cands it)"
  shows "cand_flags s p c"
  using assms
  unfolding pawn_items_def Let_def
  by (cases s)
     (auto simp: item_cands_def single_def legal_def placed_def own_two_squares_def cand_flags_def
        castle_flags_def two_squares_flags_def opponent_of_def pawn_of_def king_of_def rook_of_def
        split: if_splits)

lemma knight_items_flags:
  assumes "at (board p) m n = knight_of s" and "on_board m n"
    and "it \<in> set (knight_items s p m n)" and "c \<in> set (item_cands it)"
  shows "cand_flags s p c"
  using assms
  unfolding knight_items_def Let_def
  by (cases s)
     (auto simp: item_cands_def legal_def placed_def cand_flags_def
        castle_flags_def two_squares_flags_def opponent_of_def pawn_of_def king_of_def rook_of_def knight_of_def
        split: if_splits)


lemma slide_cands_shape:
  "c \<in> set (slide_cands ctl fix s p m n piece path)
     \<Longrightarrow> \<exists>ti tj. c = ((m, n, ti, tj), fix (placed p m n ti tj piece))"
  by (induction path) (auto split: if_splits)

lemma slide_items_plain_flags:
  assumes "at (board p) m n \<noteq> king_of s" and "at (board p) m n \<noteq> rook_of s"
    and "at (board p) m n \<noteq> pawn_of s" and "on_board m n"
    and "it \<in> set (slide_items ctl (\<lambda>pp. pp) s p m n piece dirs)" and "c \<in> set (item_cands it)"
  shows "cand_flags s p c"
proof -
  from assms(5,6) obtain d where "c \<in> set (slide_cands ctl (\<lambda>pp. pp) s p m n piece (ray m n d))"
    by (auto simp: slide_items_def item_cands_def legal_def)
  from slide_cands_shape[OF this] obtain ti tj where "c = ((m, n, ti, tj), placed p m n ti tj piece)"
    by blast
  with assms(1-4) show ?thesis
    by (simp add: cand_flags_def placed_def castle_flags_def two_squares_flags_def)
qed

lemma slide_items_rook_flags:
  assumes "at (board p) m n = rook_of s" and "on_board m n"
    and "it \<in> set (slide_items ctl (rook_fix s m n) s p m n piece dirs)" and "c \<in> set (item_cands it)"
  shows "cand_flags s p c"
proof -
  from assms(3,4) obtain d where "c \<in> set (slide_cands ctl (rook_fix s m n) s p m n piece (ray m n d))"
    by (auto simp: slide_items_def item_cands_def legal_def)
  from slide_cands_shape[OF this] obtain ti tj
    where "c = ((m, n, ti, tj), rook_fix s m n (placed p m n ti tj piece))"
    by blast
  with assms(1,2) show ?thesis
    by (cases s)
       (auto simp: cand_flags_def placed_def castle_flags_def two_squares_flags_def rook_fix_def
          clear_castle_def Let_def opponent_of_def pawn_of_def king_of_def rook_of_def)
qed

lemma king_items_flags:
  assumes "at (board p) m n = king_of s" and "on_board m n"
    and "it \<in> set (king_items s qs p m n)" and "c \<in> set (item_cands it)"
  shows "cand_flags s p c"
  using assms
  unfolding king_items_def Let_def
  by (cases s)
     (auto simp: item_cands_def single_def legal_def placed_def castled_def clear_castle_def
        cand_flags_def no_castling_def back_rank_def Let_def
        castle_flags_def two_squares_flags_def opponent_of_def pawn_of_def king_of_def rook_of_def
        split: if_splits)

lemma square_items_flags:
  assumes "on_board m n"
    and "it \<in> set (square_items s promo cap_order qs p m n)" and "c \<in> set (item_cands it)"
  shows "cand_flags s p c"
proof -
  have d: "pawn_of s \<noteq> king_of s" "pawn_of s \<noteq> rook_of s" "knight_of s \<noteq> king_of s"
    "bishop_of s \<noteq> king_of s" "bishop_of s \<noteq> rook_of s" "bishop_of s \<noteq> pawn_of s"
    "queen_of s \<noteq> king_of s" "queen_of s \<noteq> rook_of s" "queen_of s \<noteq> pawn_of s"
    by (simp_all add: pawn_of_def king_of_def rook_of_def knight_of_def bishop_of_def queen_of_def)
  consider (pawn) "at (board p) m n = pawn_of s"
    | (knight) "at (board p) m n \<noteq> pawn_of s" "at (board p) m n = knight_of s"
    | (bishop) "at (board p) m n \<noteq> pawn_of s" "at (board p) m n \<noteq> knight_of s"
        "at (board p) m n = bishop_of s"
    | (rook) "at (board p) m n \<noteq> pawn_of s" "at (board p) m n \<noteq> knight_of s"
        "at (board p) m n \<noteq> bishop_of s" "at (board p) m n = rook_of s"
    | (queen) "at (board p) m n \<noteq> pawn_of s" "at (board p) m n \<noteq> knight_of s"
        "at (board p) m n \<noteq> bishop_of s" "at (board p) m n \<noteq> rook_of s"
        "at (board p) m n = queen_of s"
    | (king) "at (board p) m n \<noteq> pawn_of s" "at (board p) m n \<noteq> knight_of s"
        "at (board p) m n \<noteq> bishop_of s" "at (board p) m n \<noteq> rook_of s"
        "at (board p) m n \<noteq> queen_of s" "at (board p) m n = king_of s"
    | (none) "at (board p) m n \<noteq> pawn_of s" "at (board p) m n \<noteq> knight_of s"
        "at (board p) m n \<noteq> bishop_of s" "at (board p) m n \<noteq> rook_of s"
        "at (board p) m n \<noteq> queen_of s" "at (board p) m n \<noteq> king_of s"
    by blast
  then show ?thesis
  proof cases
    case pawn
    with assms show ?thesis by (auto simp: square_items_def intro: pawn_items_flags)
  next
    case knight
    with assms show ?thesis by (auto simp: square_items_def intro: knight_items_flags)
  next
    case bishop
    with assms d show ?thesis
      by (auto simp: square_items_def intro!: slide_items_plain_flags[of p m n s it])
  next
    case rook
    with assms show ?thesis by (auto simp: square_items_def intro: slide_items_rook_flags)
  next
    case queen
    with assms d show ?thesis
      by (auto simp: square_items_def intro!: slide_items_plain_flags[of p m n s it])
  next
    case king
    with assms show ?thesis by (auto simp: square_items_def intro: king_items_flags)
  next
    case none
    with assms show ?thesis by (simp add: square_items_def)
  qed
qed

lemma move_rows_flags:
  assumes "it \<in> set (concat (move_rows s promo cap_order qs p))" and "c \<in> set (item_cands it)"
  shows "cand_flags s p c"
proof -
  from assms(1) obtain m n where "m \<in> set idx8" "n \<in> set idx8"
      and it: "it \<in> set (square_items s promo cap_order qs p m n)"
    by (auto simp: move_rows_def)
  then have "on_board m n" by (auto simp: idx8_def on_board_def)
  from square_items_flags[OF this it assms(2)] show ?thesis .
qed

lemma items_cands_member:
  "items_cands its = Some cs \<Longrightarrow> c \<in> set cs \<Longrightarrow> \<exists>it\<in>set its. c \<in> set (item_cands it)"
proof (induction its arbitrary: cs)
  case Nil
  then show ?case by simp
next
  case (Cons i its)
  then show ?case by (cases i) (auto simp: item_cands_def split: option.splits)
qed

lemma root_scan_member:
  "root_scan better srch cs st = Some (v, Some c) \<Longrightarrow> c \<in> set cs \<or> snd st = Some c"
proof (induction cs arbitrary: st)
  case Nil
  then show ?case by simp
next
  case (Cons x cs)
  from Cons.prems obtain sc
    where r: "root_scan better srch cs (if better sc (fst st) then (sc, Some x) else st)
                = Some (v, Some c)"
    by (auto split: option.splits)
  from Cons.IH[OF r] show ?case by (auto split: if_splits)
qed

lemma root_result_fields:
  "root_result entry s st = Some (mv, pos')
     \<Longrightarrow> snd st = Some ((em_from_i mv, em_from_j mv, em_to_i mv, em_to_j mv), pos')"
  by (auto simp: root_result_def Let_def split: option.splits prod.splits)

lemma make_white_move_flags:
  assumes "make_white_move DEPTH pos = Some (mv, pos')"
  shows "cand_flags WHITE (reset_en_passant pos WHITE)
           ((em_from_i mv, em_from_j mv, em_to_i mv, em_to_j mv), pos')"
proof -
  from assms obtain st where s: "root_search_white DEPTH pos = Some st"
      and r: "root_result pos WHITE st = Some (mv, pos')"
    by (auto simp: make_white_move_def split: option.splits)
  let ?c = "((em_from_i mv, em_from_j mv, em_to_i mv, em_to_j mv), pos')"
  from root_result_fields[OF r] have st: "st = (fst st, Some ?c)" by (cases st) simp
  from s obtain cs
    where cs: "items_cands (concat (root_rows_white (reset_en_passant pos WHITE))) = Some cs"
      and sc: "root_scan (\<lambda>sc best. sc > best)
                 (\<lambda>c. adv_minimax (DEPTH - 1) c False INT_MIN INT_MAX) cs (INT_MIN, None) = Some st"
    by (auto simp: root_search_white_def split: if_splits option.splits)
  from sc st root_scan_member[of _ _ cs "(INT_MIN, None)" "fst st" ?c] have "?c \<in> set cs" by simp
  from items_cands_member[OF cs this] show ?thesis
    unfolding root_rows_white_def using move_rows_flags by blast
qed

lemma make_black_move_flags:
  assumes "make_black_move DEPTH pos = Some (mv, pos')"
  shows "cand_flags BLACK (reset_en_passant pos BLACK)
           ((em_from_i mv, em_from_j mv, em_to_i mv, em_to_j mv), pos')"
proof -
  from assms obtain st where s: "root_search_black DEPTH pos = Some st"
      and r: "root_result pos BLACK st = Some (mv, pos')"
    by (auto simp: make_black_move_def split: option.splits)
  let ?c = "((em_from_i mv, em_from_j mv, em_to_i mv, em_to_j mv), pos')"
  from root_result_fields[OF r] have st: "st = (fst st, Some ?c)" by (cases st) simp
  from s obtain cs
    where cs: "items_cands (concat (rows_black (reset_en_passant pos BLACK))) = Some cs"
      and sc: "root_scan (\<lambda>sc best. sc < best)
                 (\<lambda>c. adv_minimax (DEPTH - 1) c True INT_MIN INT_MAX) cs (INT_MAX, None) = Some st"
    by (auto simp: root_search_black_def split: if_splits option.splits)
  from sc st root_scan_member[of _ _ cs "(INT_MAX, None)" "fst st" ?c] have "?c \<in> set cs" by simp
  from items_cands_member[OF cs this] show ?thesis
    unfolding rows_black_def using move_rows_flags by blast
qed


lemma reset_en_passant_fields:
  "board (reset_en_passant pos s) = board pos"
  "can_castle_white (reset_en_passant pos s) = can_castle_white pos"
  "can_castle_black (reset_en_passant pos s) = can_castle_black pos"
  "pawn_two_squares_black (reset_en_passant pos WHITE) = pawn_two_squares_black pos"
  "pawn_two_squares_white (reset_en_passant pos BLACK) = pawn_two_squares_white pos"
  "pawn_two_squares_white (reset_en_passant pos WHITE) = map (\<lambda>_. False) (pawn_two_squares_white pos)"
  "pawn_two_squares_black (reset_en_passant pos BLACK) = map (\<lambda>_. False) (pawn_two_squares_black pos)"
  by (simp_all add: reset_en_passant_def)

lemma cand_flags_white:
  assumes "cand_flags WHITE p ((m, n, ti, tj), pp)"
  shows "on_board m n"
    and "can_castle_black pp = can_castle_black p"
    and "pawn_two_squares_black pp = pawn_two_squares_black p"
    and "can_castle_white pp =
          (if at (board p) m n = WHITE_KING then no_castling (can_castle_white p)
           else if at (board p) m n = WHITE_ROOK \<and> m = 7 \<and> n = 0 then set_flag (can_castle_white p) 0 False
           else if at (board p) m n = WHITE_ROOK \<and> m = 7 \<and> n = 7 then set_flag (can_castle_white p) 1 False
           else can_castle_white p)"
    and "pawn_two_squares_white pp =
          (if at (board p) m n = WHITE_PAWN \<and> ti = m - 2 then set_flag (pawn_two_squares_white p) n True
           else pawn_two_squares_white p)"
  using assms
  unfolding cand_flags_def castle_flags_def two_squares_flags_def opponent_of_def king_of_def
    rook_of_def pawn_of_def back_rank_def
  by (simp_all split del: if_split cong: if_cong)

lemma cand_flags_black:
  assumes "cand_flags BLACK p ((m, n, ti, tj), pp)"
  shows "on_board m n"
    and "can_castle_white pp = can_castle_white p"
    and "pawn_two_squares_white pp = pawn_two_squares_white p"
    and "can_castle_black pp =
          (if at (board p) m n = BLACK_KING then no_castling (can_castle_black p)
           else if at (board p) m n = BLACK_ROOK \<and> m = 0 \<and> n = 0 then set_flag (can_castle_black p) 0 False
           else if at (board p) m n = BLACK_ROOK \<and> m = 0 \<and> n = 7 then set_flag (can_castle_black p) 1 False
           else can_castle_black p)"
    and "pawn_two_squares_black pp =
          (if at (board p) m n = BLACK_PAWN \<and> ti = m + 2 then set_flag (pawn_two_squares_black p) n True
           else pawn_two_squares_black p)"
  using assms
  unfolding cand_flags_def castle_flags_def two_squares_flags_def opponent_of_def king_of_def
    rook_of_def pawn_of_def back_rank_def
  by (simp_all split del: if_split cong: if_cong)

section \<open>Castling and en-passant flags under the validated entry points\<close>

lemma flag_set_flag: "flag (set_flag fs k v) j = (if nat j = nat k \<and> nat k < length fs then v else flag fs j)"
  by (auto simp: flag_def set_flag_def nth_list_update list_update_beyond)

lemma length_set_flag: "length (set_flag fs k v) = length fs"
  by (simp add: set_flag_def)

lemma length_no_castling: "length (no_castling fs) = length fs"
  by (simp add: no_castling_def length_set_flag)

lemma flag_no_castling:
  "flag (no_castling fs) j =
     (if nat j = 1 \<and> 1 < length fs then False
      else if nat j = 0 \<and> 0 < length fs then False else flag fs j)"
  unfolding no_castling_def by (auto simp: flag_set_flag length_set_flag)

lemma castle_on_white:
  "can_castle_black (castle_on pp WHITE a b c d e f) = can_castle_black pp"
  "can_castle_white (castle_on pp WHITE a b c d e f) = no_castling (can_castle_white pp)"
  "pawn_two_squares_white (castle_on pp s a b c d e f) = pawn_two_squares_white pp"
  "pawn_two_squares_black (castle_on pp s a b c d e f) = pawn_two_squares_black pp"
  by (simp_all add: castle_on_def Let_def)

lemma castle_on_black:
  "can_castle_white (castle_on pp BLACK a b c d e f) = can_castle_white pp"
  "can_castle_black (castle_on pp BLACK a b c d e f) = no_castling (can_castle_black pp)"
  by (simp_all add: castle_on_def Let_def)

lemma white_switch_castling:
  assumes "white_switch B si sj ti tj = (l, pp, B')"
  shows "can_castle_black pp = can_castle_black (position B)
         \<and> (\<forall>k. flag (can_castle_white pp) k \<longrightarrow> flag (can_castle_white (position B)) k)"
  using assms unfolding white_switch_def Let_def
  by (auto simp: castle_on_white flag_set_flag flag_no_castling
           split: if_splits prod.splits bool.splits)


lemma white_commit_fields:
  "can_castle_white (position (white_commit cb pp B t1 t2)) = can_castle_white pp"
  "can_castle_black (position (white_commit cb pp B t1 t2)) = can_castle_black pp"
  "pawn_two_squares_black (position (white_commit cb pp B t1 t2)) = pawn_two_squares_black pp"
  "pawn_two_squares_white (position (white_commit cb pp B t1 t2)) =
     (if en_passant_index B \<noteq> - 1
      then set_flag (map (\<lambda>_. False) (pawn_two_squares_white (position B))) (en_passant_index B) True
      else map (\<lambda>_. False) (pawn_two_squares_white (position B)))"
  by (simp_all add: white_commit_def Let_def)



lemma white_switch_rook_corner:
  assumes "white_switch B si sj ti tj = (True, pp, B')"
    and "at (board (position B)) si sj = WHITE_ROOK" and "si = 7"
  shows "(sj = 0 \<and> 0 < length (can_castle_white (position B)) \<longrightarrow> \<not> flag (can_castle_white pp) 0)
       \<and> (sj = 7 \<and> 1 < length (can_castle_white (position B)) \<longrightarrow> \<not> flag (can_castle_white pp) 1)"
  using assms unfolding white_switch_def Let_def
  by (auto simp: flag_set_flag length_set_flag split: if_splits)

lemma white_switch_king:
  assumes "white_switch B si sj ti tj = (True, pp, B')"
    and "at (board (position B)) si sj = WHITE_KING" and "length (can_castle_white (position B)) = 2"
  shows "\<not> flag (can_castle_white pp) 0 \<and> \<not> flag (can_castle_white pp) 1"
  using assms unfolding white_switch_def Let_def
  by (auto simp: castle_on_white flag_no_castling length_no_castling split: if_splits)

lemma black_switch_castling:
  assumes "black_switch pos si sj ti tj = (l, pp, e)"
  shows "can_castle_white pp = can_castle_white pos
         \<and> (\<forall>k. flag (can_castle_black pp) k \<longrightarrow> flag (can_castle_black pos) k)"
  using assms unfolding black_switch_def Let_def
  by (auto simp: castle_on_black flag_set_flag flag_no_castling split: if_splits)

lemma black_switch_rook_corner:
  assumes "black_switch pos si sj ti tj = (True, pp, e)"
    and "at (board pos) si sj = BLACK_ROOK" and "si = 0"
  shows "(sj = 0 \<and> 0 < length (can_castle_black pos) \<longrightarrow> \<not> flag (can_castle_black pp) 0)
       \<and> (sj = 7 \<and> 1 < length (can_castle_black pos) \<longrightarrow> \<not> flag (can_castle_black pp) 1)"
  using assms unfolding black_switch_def Let_def
  by (auto simp: flag_set_flag length_set_flag split: if_splits)

lemma black_switch_king:
  assumes "black_switch pos si sj ti tj = (True, pp, e)"
    and "at (board pos) si sj = BLACK_KING" and "length (can_castle_black pos) = 2"
  shows "\<not> flag (can_castle_black pp) 0 \<and> \<not> flag (can_castle_black pp) 1"
  using assms unfolding black_switch_def Let_def
  by (auto simp: castle_on_black flag_no_castling length_no_castling split: if_splits)


lemma notation_not_empty: "generate_move_notation pos a b c d s = Some n \<Longrightarrow> n \<noteq> []"
  by (auto simp: generate_move_notation_def Let_def split: if_splits option.splits)

lemma handle_white_move_accepted:
  assumes "handle_white_move cb B si sj ti tj = Some (s, B')" and "s \<noteq> []"
  shows "\<exists>pp B1. white_switch (entered B) si sj ti tj = (True, pp, B1)
           \<and> B' = white_commit cb pp B1 ti tj"
  using assms unfolding handle_white_move_def Let_def
  by (auto split: if_splits prod.splits option.splits)

lemma handle_white_move_rejected:
  assumes "handle_white_move cb B si sj ti tj = Some ([], B')"
  shows "position B' = position B"
proof -
  have p: "position (snd (snd (white_switch (entered B) si sj ti tj))) = position B"
    using white_switch_position[of "entered B" si sj ti tj] by (simp add: entered_def)
  show ?thesis
    using assms p unfolding handle_white_move_def Let_def
    by (auto simp: entered_def split: if_splits prod.splits option.splits dest: notation_not_empty)
qed

lemma handle_black_move_accepted:
  assumes "handle_black_move cb pos fx fy tx ty = Some (s, pos')" and "s \<noteq> []"
  shows "\<exists>pp e. black_switch pos fx fy tx ty = (True, pp, e)
           \<and> (pos' = pp \<or> (\<exists>v. pos' = pp\<lparr>board := put (board pp) tx ty v\<rparr>))"
  using assms unfolding handle_black_move_def is_black_move_legal_def Let_def
  by (auto split: if_splits prod.splits option.splits)

lemma handle_black_move_rejected:
  assumes "handle_black_move cb pos fx fy tx ty = Some ([], pos')"
  shows "pos' = pos"
  using assms unfolding handle_black_move_def is_black_move_legal_def Let_def
  by (auto split: if_splits prod.splits option.splits dest: notation_not_empty)

lemma castling_not_regained_refl: "castling_not_regained p p"
  by (simp add: castling_not_regained_def)

lemma castling_not_regained_white:
  assumes "can_castle_black p' = can_castle_black p"
    and "\<forall>k. flag (can_castle_white p') k \<longrightarrow> flag (can_castle_white p) k"
  shows "castling_not_regained p p'"
  using assms by (simp add: castling_not_regained_def)

lemma castling_not_regained_black:
  assumes "can_castle_white p' = can_castle_white p"
    and "\<forall>k. flag (can_castle_black p') k \<longrightarrow> flag (can_castle_black p) k"
  shows "castling_not_regained p p'"
  using assms by (simp add: castling_not_regained_def)

lemma well_formed_lengths:
  "well_formed p \<Longrightarrow> length (can_castle_white p) = 2 \<and> length (can_castle_black p) = 2
     \<and> length (pawn_two_squares_white p) = 8 \<and> length (pawn_two_squares_black p) = 8"
  by (simp add: well_formed_def)

lemma entered_position: "position (entered B) = position B"
  by (simp add: entered_def)

text \<open>The two validated entry points and \<open>is_black_move_legal\<close>.\<close>

lemma handlers_castling_flags:
  "(handle_white_move cb B si sj ti tj = Some (s, B') \<longrightarrow>
      castling_not_regained (position B) (position B')
      \<and> can_castle_black (position B') = can_castle_black (position B)
      \<and> (s \<noteq> [] \<and> well_formed (position B) \<longrightarrow>
           (at (board (position B)) si sj = WHITE_ROOK \<and> si = 7 \<and> sj = 0
              \<longrightarrow> flag (can_castle_white (position B')) 0 = False)
         \<and> (at (board (position B)) si sj = WHITE_ROOK \<and> si = 7 \<and> sj = 7
              \<longrightarrow> flag (can_castle_white (position B')) 1 = False)
         \<and> (at (board (position B)) si sj = WHITE_KING
              \<longrightarrow> flag (can_castle_white (position B')) 0 = False
                \<and> flag (can_castle_white (position B')) 1 = False)))
   \<and> (handle_black_move cb' pos fx fy tx ty = Some (s', pos') \<longrightarrow>
      castling_not_regained pos pos'
      \<and> can_castle_white pos' = can_castle_white pos
      \<and> (s' \<noteq> [] \<and> well_formed pos \<longrightarrow>
           (at (board pos) fx fy = BLACK_ROOK \<and> fx = 0 \<and> fy = 0
              \<longrightarrow> flag (can_castle_black pos') 0 = False)
         \<and> (at (board pos) fx fy = BLACK_ROOK \<and> fx = 0 \<and> fy = 7
              \<longrightarrow> flag (can_castle_black pos') 1 = False)
         \<and> (at (board pos) fx fy = BLACK_KING
              \<longrightarrow> flag (can_castle_black pos') 0 = False
                \<and> flag (can_castle_black pos') 1 = False)))
   \<and> castling_not_regained pos (fst (snd (is_black_move_legal pos fx fy tx ty)))"
proof (intro conjI impI)
  assume h: "handle_white_move cb B si sj ti tj = Some (s, B')"
  have main: "castling_not_regained (position B) (position B')
      \<and> can_castle_black (position B') = can_castle_black (position B)"
  proof (cases "s = []")
    case True
    then have "position B' = position B"
      using handle_white_move_rejected[of cb B si sj ti tj B'] h by simp
    then show ?thesis using castling_not_regained_refl by simp
  next
    case False
    from handle_white_move_accepted[OF h False] obtain pp B1
      where w: "white_switch (entered B) si sj ti tj = (True, pp, B1)"
        and b: "B' = white_commit cb pp B1 ti tj" by blast
    from white_switch_castling[OF w] show ?thesis
      using b by (simp add: white_commit_fields entered_position castling_not_regained_white)
  qed
  show "castling_not_regained (position B) (position B')" using main by simp
  show "can_castle_black (position B') = can_castle_black (position B)" using main by simp
next
  assume h: "handle_white_move cb B si sj ti tj = Some (s, B')"
    and a: "s \<noteq> [] \<and> well_formed (position B)"
    and r: "at (board (position B)) si sj = WHITE_ROOK \<and> si = 7 \<and> sj = 0"
  from handle_white_move_accepted[OF h] a obtain pp B1
    where w: "white_switch (entered B) si sj ti tj = (True, pp, B1)"
      and b: "B' = white_commit cb pp B1 ti tj" by blast
  have rk: "at (board (position (entered B))) si sj = WHITE_ROOK" and s7: "si = 7"
    using r by (auto simp: entered_position)
  from white_switch_rook_corner[OF w rk s7] r a well_formed_lengths[of "position B"]
  have "\<not> flag (can_castle_white pp) 0" by (simp add: entered_position)
  then show "flag (can_castle_white (position B')) 0 = False"
    using b by (simp add: white_commit_fields)
next
  assume h: "handle_white_move cb B si sj ti tj = Some (s, B')"
    and a: "s \<noteq> [] \<and> well_formed (position B)"
    and r: "at (board (position B)) si sj = WHITE_ROOK \<and> si = 7 \<and> sj = 7"
  from handle_white_move_accepted[OF h] a obtain pp B1
    where w: "white_switch (entered B) si sj ti tj = (True, pp, B1)"
      and b: "B' = white_commit cb pp B1 ti tj" by blast
  have rk: "at (board (position (entered B))) si sj = WHITE_ROOK" and s7: "si = 7"
    using r by (auto simp: entered_position)
  from white_switch_rook_corner[OF w rk s7] r a well_formed_lengths[of "position B"]
  have "\<not> flag (can_castle_white pp) 1" by (simp add: entered_position)
  then show "flag (can_castle_white (position B')) 1 = False"
    using b by (simp add: white_commit_fields)
next
  assume h: "handle_white_move cb B si sj ti tj = Some (s, B')"
    and a: "s \<noteq> [] \<and> well_formed (position B)"
    and r: "at (board (position B)) si sj = WHITE_KING"
  from handle_white_move_accepted[OF h] a obtain pp B1
    where w: "white_switch (entered B) si sj ti tj = (True, pp, B1)"
      and b: "B' = white_commit cb pp B1 ti tj" by blast
  have rk: "at (board (position (entered B))) si sj = WHITE_KING"
    and l2: "length (can_castle_white (position (entered B))) = 2"
    using r a well_formed_lengths[of "position B"] by (auto simp: entered_position)
  from white_switch_king[OF w rk l2]
  have k: "\<not> flag (can_castle_white pp) 0 \<and> \<not> flag (can_castle_white pp) 1" .
  show "flag (can_castle_white (position B')) 0 = False"
    using b k by (simp add: white_commit_fields)
  show "flag (can_castle_white (position B')) 1 = False"
    using b k by (simp add: white_commit_fields)
next
  assume h: "handle_black_move cb' pos fx fy tx ty = Some (s', pos')"
  have main: "castling_not_regained pos pos' \<and> can_castle_white pos' = can_castle_white pos"
  proof (cases "s' = []")
    case True
    then have "pos' = pos" using handle_black_move_rejected[of cb' pos fx fy tx ty pos'] h by simp
    then show ?thesis using castling_not_regained_refl by simp
  next
    case False
    from handle_black_move_accepted[OF h False] obtain pp e
      where w: "black_switch pos fx fy tx ty = (True, pp, e)"
        and b: "pos' = pp \<or> (\<exists>v. pos' = pp\<lparr>board := put (board pp) tx ty v\<rparr>)" by blast
    from black_switch_castling[OF w] b show ?thesis
      by (auto intro!: castling_not_regained_black)
  qed
  show "castling_not_regained pos pos'" using main by simp
  show "can_castle_white pos' = can_castle_white pos" using main by simp
next
  assume h: "handle_black_move cb' pos fx fy tx ty = Some (s', pos')"
    and a: "s' \<noteq> [] \<and> well_formed pos"
    and r: "at (board pos) fx fy = BLACK_ROOK \<and> fx = 0 \<and> fy = 0"
  from handle_black_move_accepted[OF h] a obtain pp e
    where w: "black_switch pos fx fy tx ty = (True, pp, e)"
      and b: "pos' = pp \<or> (\<exists>v. pos' = pp\<lparr>board := put (board pp) tx ty v\<rparr>)" by blast
  have rk: "at (board pos) fx fy = BLACK_ROOK" and s0: "fx = 0" using r by auto
  from black_switch_rook_corner[OF w rk s0] r a well_formed_lengths[of pos]
  have "\<not> flag (can_castle_black pp) 0" by simp
  then show "flag (can_castle_black pos') 0 = False" using b by auto
next
  assume h: "handle_black_move cb' pos fx fy tx ty = Some (s', pos')"
    and a: "s' \<noteq> [] \<and> well_formed pos"
    and r: "at (board pos) fx fy = BLACK_ROOK \<and> fx = 0 \<and> fy = 7"
  from handle_black_move_accepted[OF h] a obtain pp e
    where w: "black_switch pos fx fy tx ty = (True, pp, e)"
      and b: "pos' = pp \<or> (\<exists>v. pos' = pp\<lparr>board := put (board pp) tx ty v\<rparr>)" by blast
  have rk: "at (board pos) fx fy = BLACK_ROOK" and s0: "fx = 0" using r by auto
  from black_switch_rook_corner[OF w rk s0] r a well_formed_lengths[of pos]
  have "\<not> flag (can_castle_black pp) 1" by simp
  then show "flag (can_castle_black pos') 1 = False" using b by auto
next
  assume h: "handle_black_move cb' pos fx fy tx ty = Some (s', pos')"
    and a: "s' \<noteq> [] \<and> well_formed pos"
    and r: "at (board pos) fx fy = BLACK_KING"
  from handle_black_move_accepted[OF h] a obtain pp e
    where w: "black_switch pos fx fy tx ty = (True, pp, e)"
      and b: "pos' = pp \<or> (\<exists>v. pos' = pp\<lparr>board := put (board pp) tx ty v\<rparr>)" by blast
  have l2: "length (can_castle_black pos) = 2" using a well_formed_lengths[of pos] by simp
  from black_switch_king[OF w r l2]
  have k: "\<not> flag (can_castle_black pp) 0 \<and> \<not> flag (can_castle_black pp) 1" .
  show "flag (can_castle_black pos') 0 = False" using b k by auto
  show "flag (can_castle_black pos') 1 = False" using b k by auto
next
  obtain l pp e where w: "black_switch pos fx fy tx ty = (l, pp, e)"
    by (cases "black_switch pos fx fy tx ty") auto
  from black_switch_castling[OF w]
  show "castling_not_regained pos (fst (snd (is_black_move_legal pos fx fy tx ty)))"
    using w by (auto simp: is_black_move_legal_def castling_not_regained_refl
                     intro!: castling_not_regained_black)
qed

text \<open>The engine: the move \<open>make_white_move\<close> or \<open>make_black_move\<close> applies is one of its
  candidates.\<close>

lemma make_white_move_castling:
  assumes "make_white_move DEPTH pos = Some (mv, pos')"
  shows "castling_not_regained pos pos'
      \<and> can_castle_black pos' = can_castle_black pos
      \<and> (well_formed pos \<longrightarrow>
           (at (board pos) (em_from_i mv) (em_from_j mv) = WHITE_ROOK \<and> em_from_i mv = 7 \<and> em_from_j mv = 0
              \<longrightarrow> flag (can_castle_white pos') 0 = False)
         \<and> (at (board pos) (em_from_i mv) (em_from_j mv) = WHITE_ROOK \<and> em_from_i mv = 7 \<and> em_from_j mv = 7
              \<longrightarrow> flag (can_castle_white pos') 1 = False)
         \<and> (at (board pos) (em_from_i mv) (em_from_j mv) = WHITE_KING
              \<longrightarrow> flag (can_castle_white pos') 0 = False
                \<and> flag (can_castle_white pos') 1 = False))"
proof -
  note f = cand_flags_white[OF make_white_move_flags[OF assms], unfolded reset_en_passant_fields]
  have b: "can_castle_black pos' = can_castle_black pos"
    and w: "can_castle_white pos' =
          (if at (board pos) (em_from_i mv) (em_from_j mv) = WHITE_KING then no_castling (can_castle_white pos)
           else if at (board pos) (em_from_i mv) (em_from_j mv) = WHITE_ROOK \<and> em_from_i mv = 7 \<and> em_from_j mv = 0
             then set_flag (can_castle_white pos) 0 False
           else if at (board pos) (em_from_i mv) (em_from_j mv) = WHITE_ROOK \<and> em_from_i mv = 7 \<and> em_from_j mv = 7
             then set_flag (can_castle_white pos) 1 False
           else can_castle_white pos)"
    using f(2) f(4) by blast+
  have "\<forall>k. flag (can_castle_white pos') k \<longrightarrow> flag (can_castle_white pos) k"
    unfolding w by (auto simp: flag_set_flag flag_no_castling split: if_splits)
  from castling_not_regained_white[OF b this] b
  show ?thesis
    unfolding w by (auto simp: flag_set_flag flag_no_castling dest!: well_formed_lengths)
qed

lemma make_black_move_castling:
  assumes "make_black_move DEPTH pos = Some (mv, pos')"
  shows "castling_not_regained pos pos'
      \<and> can_castle_white pos' = can_castle_white pos
      \<and> (well_formed pos \<longrightarrow>
           (at (board pos) (em_from_i mv) (em_from_j mv) = BLACK_ROOK \<and> em_from_i mv = 0 \<and> em_from_j mv = 0
              \<longrightarrow> flag (can_castle_black pos') 0 = False)
         \<and> (at (board pos) (em_from_i mv) (em_from_j mv) = BLACK_ROOK \<and> em_from_i mv = 0 \<and> em_from_j mv = 7
              \<longrightarrow> flag (can_castle_black pos') 1 = False)
         \<and> (at (board pos) (em_from_i mv) (em_from_j mv) = BLACK_KING
              \<longrightarrow> flag (can_castle_black pos') 0 = False
                \<and> flag (can_castle_black pos') 1 = False))"
proof -
  note f = cand_flags_black[OF make_black_move_flags[OF assms], unfolded reset_en_passant_fields]
  have b: "can_castle_white pos' = can_castle_white pos"
    and w: "can_castle_black pos' =
          (if at (board pos) (em_from_i mv) (em_from_j mv) = BLACK_KING then no_castling (can_castle_black pos)
           else if at (board pos) (em_from_i mv) (em_from_j mv) = BLACK_ROOK \<and> em_from_i mv = 0 \<and> em_from_j mv = 0
             then set_flag (can_castle_black pos) 0 False
           else if at (board pos) (em_from_i mv) (em_from_j mv) = BLACK_ROOK \<and> em_from_i mv = 0 \<and> em_from_j mv = 7
             then set_flag (can_castle_black pos) 1 False
           else can_castle_black pos)"
    using f(2) f(4) by blast+
  have "\<forall>k. flag (can_castle_black pos') k \<longrightarrow> flag (can_castle_black pos) k"
    unfolding w by (auto simp: flag_set_flag flag_no_castling split: if_splits)
  from castling_not_regained_black[OF b this] b
  show ?thesis
    unfolding w by (auto simp: flag_set_flag flag_no_castling dest!: well_formed_lengths)
qed

text \<open>
  C6, as the code has it.  A move applied by \<open>handle_white_move\<close>,
  \<open>Human::handle_black_move\<close>, \<open>make_white_move\<close> or \<open>make_black_move\<close> never switches a
  castling flag on and never changes a castling flag of the side that did not move.
  An applied rook move off a1 or h1 (a8 or h8 for black) clears the mover's flag of
  that corner, and an applied king move or castling clears both flags of the mover.
  (What a capture on a corner square does to the flags of the captured side follows:
  nothing.)
\<close>

theorem castling_flags_of_applied_moves:
  "(handle_white_move cb B si sj ti tj = Some (s, B') \<longrightarrow>
      castling_not_regained (position B) (position B')
      \<and> can_castle_black (position B') = can_castle_black (position B)
      \<and> (s \<noteq> [] \<and> well_formed (position B) \<longrightarrow>
           (at (board (position B)) si sj = WHITE_ROOK \<and> si = 7 \<and> sj = 0
              \<longrightarrow> flag (can_castle_white (position B')) 0 = False)
         \<and> (at (board (position B)) si sj = WHITE_ROOK \<and> si = 7 \<and> sj = 7
              \<longrightarrow> flag (can_castle_white (position B')) 1 = False)
         \<and> (at (board (position B)) si sj = WHITE_KING
              \<longrightarrow> flag (can_castle_white (position B')) 0 = False
                \<and> flag (can_castle_white (position B')) 1 = False)))
   \<and> (handle_black_move cb' pos fx fy tx ty = Some (s', pos') \<longrightarrow>
      castling_not_regained pos pos'
      \<and> can_castle_white pos' = can_castle_white pos
      \<and> (s' \<noteq> [] \<and> well_formed pos \<longrightarrow>
           (at (board pos) fx fy = BLACK_ROOK \<and> fx = 0 \<and> fy = 0
              \<longrightarrow> flag (can_castle_black pos') 0 = False)
         \<and> (at (board pos) fx fy = BLACK_ROOK \<and> fx = 0 \<and> fy = 7
              \<longrightarrow> flag (can_castle_black pos') 1 = False)
         \<and> (at (board pos) fx fy = BLACK_KING
              \<longrightarrow> flag (can_castle_black pos') 0 = False
                \<and> flag (can_castle_black pos') 1 = False)))
   \<and> castling_not_regained pos (fst (snd (is_black_move_legal pos fx fy tx ty)))
   \<and> (make_white_move DEPTH q1 = Some (mv1, q1') \<longrightarrow>
      castling_not_regained q1 q1'
      \<and> can_castle_black q1' = can_castle_black q1
      \<and> (well_formed q1 \<longrightarrow>
           (at (board q1) (em_from_i mv1) (em_from_j mv1) = WHITE_ROOK \<and> em_from_i mv1 = 7 \<and> em_from_j mv1 = 0
              \<longrightarrow> flag (can_castle_white q1') 0 = False)
         \<and> (at (board q1) (em_from_i mv1) (em_from_j mv1) = WHITE_ROOK \<and> em_from_i mv1 = 7 \<and> em_from_j mv1 = 7
              \<longrightarrow> flag (can_castle_white q1') 1 = False)
         \<and> (at (board q1) (em_from_i mv1) (em_from_j mv1) = WHITE_KING
              \<longrightarrow> flag (can_castle_white q1') 0 = False
                \<and> flag (can_castle_white q1') 1 = False)))
   \<and> (make_black_move DEPTH' q2 = Some (mv2, q2') \<longrightarrow>
      castling_not_regained q2 q2'
      \<and> can_castle_white q2' = can_castle_white q2
      \<and> (well_formed q2 \<longrightarrow>
           (at (board q2) (em_from_i mv2) (em_from_j mv2) = BLACK_ROOK \<and> em_from_i mv2 = 0 \<and> em_from_j mv2 = 0
              \<longrightarrow> flag (can_castle_black q2') 0 = False)
         \<and> (at (board q2) (em_from_i mv2) (em_from_j mv2) = BLACK_ROOK \<and> em_from_i mv2 = 0 \<and> em_from_j mv2 = 7
              \<longrightarrow> flag (can_castle_black q2') 1 = False)
         \<and> (at (board q2) (em_from_i mv2) (em_from_j mv2) = BLACK_KING
              \<longrightarrow> flag (can_castle_black q2') 0 = False
                \<and> flag (can_castle_black q2') 1 = False)))"
proof -
  note h = handlers_castling_flags[of cb B si sj ti tj s B' cb' pos fx fy tx ty s' pos']
  note w = make_white_move_castling[of DEPTH q1 mv1 q1']
  note b = make_black_move_castling[of DEPTH' q2 mv2 q2']
  from h w b show ?thesis by blast
qed







section \<open>The advisory query\<close>







section \<open>The engine on two kings\<close>

text \<open>In \<open>kings_with_rights\<close>, searching one ply, \<open>make_white_move\<close> plays Ka1-b2 and
  \<open>make_black_move\<close> plays Kh8-g7.\<close>

lemma white_engine_move:
  "map_option (\<lambda>r. (em_notation (fst r), em_from_i (fst r), em_from_j (fst r), em_eval (fst r)))
     (make_white_move 1 kings_with_rights) = Some (''Kb2'', 7, 0, 70)"
  by code_simp

lemma black_engine_move:
  "map_option (\<lambda>r. (em_notation (fst r), em_from_i (fst r), em_from_j (fst r), em_eval (fst r)))
     (make_black_move 1 kings_with_rights) = Some (''Kg7'', 0, 7, - 70)"
  by code_simp

lemma kings_with_rights_facts:
  "well_formed kings_with_rights
   \<and> at (board kings_with_rights) 7 0 = WHITE_KING \<and> at (board kings_with_rights) 0 7 = BLACK_KING
   \<and> can_castle_white kings_with_rights = [True, True]
   \<and> can_castle_black kings_with_rights = [True, True]"
  by code_simp

section \<open>Terminal detection: what the code decides\<close>

text \<open>
  C1.  The claim: \<open>is_checkmate\<close> is true exactly when the side is in check and no
  move leaves it out of check.  In the position \<open>queen_stalemate\<close> (well formed) the
  black king is not in check, and \<open>is_checkmate\<close> returns true for black.
\<close>

theorem is_checkmate_true_without_check:
  "well_formed queen_stalemate
   \<and> king_is_in_check (board queen_stalemate) BLACK = False
   \<and> is_checkmate queen_stalemate BLACK = Some True"
  by code_simp

text \<open>
  C2.  The claim: \<open>is_stalemate\<close> is true exactly when the side is not in check and
  has no legal move, a legal move being one that does not leave the own king in check,
  by the enumeration of the checkmate test.  In the position \<open>pinned_bishop\<close> (well
  formed) black is not in check, the enumeration of \<open>is_checkmate\<close> finds no move
  that leaves black out of check, and \<open>is_stalemate\<close> returns false.
\<close>

theorem is_stalemate_false_on_pinned_piece:
  "well_formed pinned_bishop
   \<and> king_is_in_check (board pinned_bishop) BLACK = False
   \<and> is_checkmate pinned_bishop BLACK = Some True
   \<and> is_stalemate pinned_bishop BLACK = Some False"
  by code_simp

text \<open>The pinned white rook e2 moving to a2, and the pinned black bishop g8 moving to f7.\<close>

theorem self_check_is_rejected_witness:
  "fst (white_switch (entered (on_position pinned_rook)) 6 4 6 0)
   \<and> king_is_in_check (board (fst (snd (white_switch (entered (on_position pinned_rook)) 6 4 6 0)))) WHITE
   \<and> map_option (\<lambda>r. (fst r, position (snd r)))
        (handle_white_move (CHR ''q'') (on_position pinned_rook) 6 4 6 0) = Some ([], pinned_rook)
   \<and> fst (black_switch pinned_bishop 0 6 1 5)
   \<and> king_is_in_check (board (fst (snd (black_switch pinned_bishop 0 6 1 5)))) BLACK
   \<and> generate_move_notation pinned_bishop 0 6 1 5 BLACK = Some ''Bf7+''
   \<and> fst (is_black_move_legal pinned_bishop 0 6 1 5) = False
   \<and> fst (snd (is_black_move_legal pinned_bishop 0 6 1 5)) = pinned_bishop
   \<and> handle_black_move None pinned_bishop 0 6 1 5 = Some ([], pinned_bishop)"
proof -
  have w: "fst (white_switch (entered (on_position pinned_rook)) 6 4 6 0)
      \<and> king_is_in_check (board (fst (snd (white_switch (entered (on_position pinned_rook)) 6 4 6 0)))) WHITE"
    by code_simp
  have b: "fst (black_switch pinned_bishop 0 6 1 5)
      \<and> king_is_in_check (board (fst (snd (black_switch pinned_bishop 0 6 1 5)))) BLACK"
    by code_simp
  have n: "generate_move_notation pinned_bishop 0 6 1 5 BLACK = Some ''Bf7+''"
    by code_simp
  have p: "position (on_position pinned_rook) = pinned_rook"
    by (simp add: on_position_def)
  show ?thesis
    using self_check_is_rejected[of "on_position pinned_rook" 6 4 6 0 "CHR ''q''" pinned_bishop 0 6 1 5 None]
      w b n p by simp
qed

section \<open>The search on two kings\<close>

text \<open>White king a1 against black king h8, one ply deep at the node and at both roots.\<close>

theorem pruned_search_equals_full_minimax_witness:
  "full_minimax 1 kings_with_rights True = Some 70
   \<and> adv_minimax 1 kings_with_rights True INT_MIN INT_MAX = Some 70
   \<and> full_best_white 1 kings_with_rights = Some 70
   \<and> map_option fst (root_search_white 1 kings_with_rights) = Some 70
   \<and> map_option (\<lambda>r. em_eval (fst r)) (make_white_move 1 kings_with_rights) = Some 70
   \<and> full_best_black 1 kings_with_rights = Some (- 70)
   \<and> map_option fst (root_search_black 1 kings_with_rights) = Some (- 70)
   \<and> map_option (\<lambda>r. em_eval (fst r)) (make_black_move 1 kings_with_rights) = Some (- 70)"
proof -
  have n: "full_minimax 1 kings_with_rights True = Some 70" by code_simp
  have w: "full_best_white 1 kings_with_rights = Some 70" by code_simp
  have b: "full_best_black 1 kings_with_rights = Some (- 70)" by code_simp
  from white_engine_move obtain r where mw: "make_white_move 1 kings_with_rights = Some r" by auto
  from black_engine_move obtain r' where mb: "make_black_move 1 kings_with_rights = Some r'" by auto
  note t = pruned_search_equals_full_minimax[of 1 kings_with_rights True 70 1 kings_with_rights 70 "- 70"]
  from t n have a: "adv_minimax 1 kings_with_rights True INT_MIN INT_MAX = Some 70" by blast
  from t w have rw: "map_option fst (root_search_white 1 kings_with_rights) = Some 70"
    and ew: "\<forall>r. make_white_move 1 kings_with_rights = Some r \<longrightarrow> em_eval (fst r) = 70"
    by blast+
  from t b have rb: "map_option fst (root_search_black 1 kings_with_rights) = Some (- 70)"
    and eb: "\<forall>r. make_black_move 1 kings_with_rights = Some r \<longrightarrow> em_eval (fst r) = - 70"
    by blast+
  from ew[rule_format, OF mw] mw have mw': "map_option (\<lambda>r. em_eval (fst r)) (make_white_move 1 kings_with_rights) = Some 70"
    by simp
  from eb[rule_format, OF mb] mb have mb': "map_option (\<lambda>r. em_eval (fst r)) (make_black_move 1 kings_with_rights) = Some (- 70)"
    by simp
  from n a w rw mw' b rb mb' show ?thesis by blast
qed

section \<open>Castling in the search\<close>

text \<open>
  C5.  The claim: every castling move the engine generates has the king's start,
  transit and landing squares unattacked.  In \<open>castle_in_check\<close> (well formed) the
  white king on e1 is attacked by the rook on e8.  The move list of the maximising
  half of \<open>adv_minimax\<close> contains the queenside castling e1-c1 all the same, since it
  tests the columns 1, 2, 3 where \<open>make_white_move\<close> tests 2, 3, 4; the list of
  \<open>make_white_move\<close> does not contain it.
\<close>

theorem search_castles_out_of_check:
  "well_formed castle_in_check
   \<and> under_control (board castle_in_check) 7 4 BLACK
   \<and> map_option (\<lambda>cs. List.member (map fst cs) (7, 4, 7, 2))
        (items_cands (concat (search_rows_white castle_in_check))) = Some True
   \<and> map_option (\<lambda>cs. List.member (map fst cs) (7, 4, 7, 2))
        (items_cands (concat (root_rows_white castle_in_check))) = Some False"
  by code_simp

section \<open>Castling flags: a capture on a corner\<close>

text \<open>
  C6.  The claim: a move that captures a piece on a1, h1, a8 or h8 sets the castling
  flag of that corner to false, so that a flag is true only while the rook stands on
  its corner.  In \<open>corner_capture\<close> the black bishop takes the rook on h1 through
  \<open>Human::handle_black_move\<close>; afterwards the bishop stands on h1 and white's flag of
  that corner is still true.  \<open>handle_white_move\<close> then accepts the castling e1-g1, which
  removes the bishop and writes a rook on f1.
\<close>

theorem corner_capture_keeps_flag:
  "well_formed corner_capture
   \<and> map_option (\<lambda>r. (fst r, at (board (snd r)) 7 7, flag (can_castle_white (snd r)) 1))
        (handle_black_move None corner_capture 3 3 7 7) = Some (''Bxh1'', - 3, True)
   \<and> map_option (\<lambda>r. (fst r, at (board (position (snd r))) 7 5, at (board (position (snd r))) 7 7))
        (Option.bind (handle_black_move None corner_capture 3 3 7 7)
           (\<lambda>r. handle_white_move (CHR ''q'') (on_position (snd r)) 7 4 7 6))
      = Some (''O-O'', 4, 0)"
  by code_simp

text \<open>The white rook a1 moving to b1 and the black king e8 moving to e7 in
  \<open>castle_ready\<close>; the king moves of the engine in \<open>kings_with_rights\<close>.\<close>

theorem castling_flags_of_applied_moves_witness:
  "(\<exists>s B'. handle_white_move (CHR ''q'') (on_position castle_ready) 7 0 7 1 = Some (s, B')
        \<and> s = ''Rb1''
        \<and> castling_not_regained castle_ready (position B')
        \<and> can_castle_black (position B') = can_castle_black castle_ready
        \<and> flag (can_castle_white (position B')) 0 = False)
   \<and> (\<exists>s' pos'. handle_black_move None castle_ready 0 4 1 4 = Some (s', pos')
        \<and> s' = ''Ke7''
        \<and> castling_not_regained castle_ready pos'
        \<and> can_castle_white pos' = can_castle_white castle_ready
        \<and> flag (can_castle_black pos') 0 = False \<and> flag (can_castle_black pos') 1 = False)
   \<and> castling_not_regained castle_ready (fst (snd (is_black_move_legal castle_ready 0 4 1 4)))
   \<and> (\<exists>mv q'. make_white_move 1 kings_with_rights = Some (mv, q')
        \<and> em_notation mv = ''Kb2''
        \<and> castling_not_regained kings_with_rights q'
        \<and> can_castle_black q' = [True, True]
        \<and> flag (can_castle_white q') 0 = False \<and> flag (can_castle_white q') 1 = False)
   \<and> (\<exists>mv q'. make_black_move 1 kings_with_rights = Some (mv, q')
        \<and> em_notation mv = ''Kg7''
        \<and> castling_not_regained kings_with_rights q'
        \<and> can_castle_white q' = [True, True]
        \<and> flag (can_castle_black q') 0 = False \<and> flag (can_castle_black q') 1 = False)"
proof -
  have w: "map_option fst (handle_white_move (CHR ''q'') (on_position castle_ready) 7 0 7 1) = Some ''Rb1''"
    by code_simp
  have b: "map_option fst (handle_black_move None castle_ready 0 4 1 4) = Some ''Ke7''"
    by code_simp
  have f: "well_formed castle_ready \<and> at (board castle_ready) 7 0 = WHITE_ROOK
           \<and> at (board castle_ready) 0 4 = BLACK_KING"
    by code_simp
  have p: "position (on_position castle_ready) = castle_ready" by (simp add: on_position_def)
  from w obtain B' where w': "handle_white_move (CHR ''q'') (on_position castle_ready) 7 0 7 1 = Some (''Rb1'', B')"
    by auto
  from b obtain pos' where b': "handle_black_move None castle_ready 0 4 1 4 = Some (''Ke7'', pos')"
    by auto
  from white_engine_move obtain mv1 q1'
    where e1: "make_white_move 1 kings_with_rights = Some (mv1, q1')"
      and m1: "em_notation mv1 = ''Kb2''" "em_from_i mv1 = 7" "em_from_j mv1 = 0"
    by auto
  from black_engine_move obtain mv2 q2'
    where e2: "make_black_move 1 kings_with_rights = Some (mv2, q2')"
      and m2: "em_notation mv2 = ''Kg7''" "em_from_i mv2 = 0" "em_from_j mv2 = 7"
    by auto
  show ?thesis
    using castling_flags_of_applied_moves[of "CHR ''q''" "on_position castle_ready" 7 0 7 1 "''Rb1''" B'
             None castle_ready 0 4 1 4 "''Ke7''" pos' 1 kings_with_rights mv1 q1'
             1 kings_with_rights mv2 q2']
      w' b' f p e1 m1 e2 m2 kings_with_rights_facts
    by simp
qed

section \<open>En-passant flags: the opponent's reply\<close>



section \<open>Positions that are well formed but not reachable\<close>

text \<open>
  C8.  The claim: on every well-formed position, reachable or not, \<open>evaluate\<close>,
  \<open>is_checkmate\<close> and the engine's move selection read no array out of bounds and
  return no uninitialised state.  With a white pawn on row 0 (\<open>far_pawn\<close>)
  \<open>is_checkmate\<close> and \<open>evaluate\<close> read \<open>board[-1][0]\<close>.  With no black piece on the
  board (\<open>no_black\<close>) \<open>make_black_move\<close> finds no move, hands the coordinates -1 to
  \<open>generate_move_notation\<close> and copies the uninitialised \<open>best_position\<close>.
\<close>

theorem unreachable_positions_leave_the_board:
  "well_formed far_pawn
   \<and> is_checkmate far_pawn WHITE = None
   \<and> evaluate far_pawn 4 = None
   \<and> well_formed no_black
   \<and> make_black_move DEPTH_reference no_black = None"
  by code_simp

section \<open>The advisory query on a mate in one\<close>





end
